theory Spec2Isabelle
  imports Main "HOL-Library.Word"
begin

unbundle bit_operations_syntax

section \<open>Freestanding primitives: C strings, the FNV-1a hasher, case-insensitive compare\<close>

text \<open>
  A C string is modelled by the list of code units stored from the pointer on. The terminator
  is implicit: reading at or past the end of the list yields \<open>0\<close>, and a \<open>0\<close> inside the list
  terminates the string there, as it does for the C routines. \<open>peek\<close> is \<open>*p\<close> and \<open>tl\<close> is
  \<open>p++\<close>.
\<close>

type_synonym byte = "8 word"

definition peek :: "'a::len word list \<Rightarrow> 'a word" where
  "peek s = (case s of [] \<Rightarrow> 0 | c # _ \<Rightarrow> c)"

text \<open>\<open>strlen\<close> / \<open>std::char_traits<CharT>::length\<close>: the number of code units before the
  first \<open>0\<close>; \<open>cstr\<close> is the string's content, the code units before the terminator.\<close>

definition strlen :: "'a::len word list \<Rightarrow> nat" where
  "strlen str = length (takeWhile (\<lambda>c. c \<noteq> 0) str)"

definition cstr :: "'a::len word list \<Rightarrow> 'a word list" where
  "cstr str = takeWhile (\<lambda>c. c \<noteq> 0) str"

subsection \<open>\<open>runtime/fnv1a.h\<close>\<close>

text \<open>The fold step of the hasher: \<open>if (byte >= 'a') byte -= 0x20;\<close> on a \<open>uint8_t\<close>.\<close>

definition hash_fold :: "byte \<Rightarrow> byte" where
  "hash_fold byte = (if byte \<ge> 0x61 then byte - 0x20 else byte)"

text \<open>
  \<open>fnv1a_hash(string, length)\<close>: the loop \<open>while (length--)\<close> reads one code unit, keeps
  its low byte (\<open>static_cast<uint8_t>\<close>), folds it, and mixes it into the 32-bit hash
  (\<open>hash ^= byte; hash *= 0x01000193\<close>, both wrapping). The first argument is the running hash.
\<close>

fun fnv1a_hash_n :: "32 word \<Rightarrow> 'a::len word list \<Rightarrow> nat \<Rightarrow> 32 word" where
  "fnv1a_hash_n hash string 0 = hash"
| "fnv1a_hash_n hash string (Suc n) =
     (let byte = hash_fold (ucast (peek string));
          hash = hash XOR ucast byte;
          hash = hash * 0x01000193
      in fnv1a_hash_n hash (tl string) n)"

definition fnv1a_hash :: "'a::len word list \<Rightarrow> 32 word" where
  "fnv1a_hash string = fnv1a_hash_n 0x811c9dc5 string (strlen string)"

subsection \<open>\<open>crt0.h\<close>\<close>

text \<open>The fold of the comparators: \<open>if (c >= 'A' && c <= 'Z') c += ('a' - 'A');\<close>.\<close>

definition cmp_fold :: "byte \<Rightarrow> byte" where
  "cmp_fold c = (if c \<ge> 0x41 \<and> c \<le> 0x5A then c + (0x61 - 0x41) else c)"

text \<open>The two case maps the property is stated with: \<open>ascii_upper\<close> maps only \<open>a..z\<close> to
  \<open>A..Z\<close>, \<open>ascii_lower\<close> maps only \<open>A..Z\<close> to \<open>a..z\<close>. \<open>is_ascii\<close> says that every code
  unit is at most \<open>0x7F\<close>.\<close>

definition ascii_upper :: "byte \<Rightarrow> byte" where
  "ascii_upper c = (if 0x61 \<le> c \<and> c \<le> 0x7A then c - 0x20 else c)"

definition ascii_lower :: "byte \<Rightarrow> byte" where
  "ascii_lower c = (if 0x41 \<le> c \<and> c \<le> 0x5A then c + 0x20 else c)"

definition is_ascii :: "byte list \<Rightarrow> bool" where
  "is_ascii s = list_all (\<lambda>c. c \<le> 0x7F) s"

text \<open>\<open>upto_z\<close>: every code unit of the string is at most \<open>'z'\<close> (\<open>0x7A\<close>).\<close>

definition upto_z :: "byte list \<Rightarrow> bool" where
  "upto_z s = list_all (\<lambda>c. c \<le> 0x7A) s"

lemma byte_sub32: "(0x20::byte) \<le> c \<Longrightarrow> unat (c - 0x20) = unat c - 32"
  by (simp add: unat_sub)

lemma byte_add32: "c \<le> (0xDF::byte) \<Longrightarrow> unat (c + 0x20) = unat c + 32"
  by (simp add: unat_add_lem [THEN iffD1] word_le_nat_alt)

lemma cmp_fold_zero: "cmp_fold c = 0 \<longleftrightarrow> c = 0"
proof -
  have "unat (c + 0x20) = unat c + 32" if "c \<le> 0x5A"
    using that by (intro byte_add32) (simp add: word_le_nat_alt)
  then show ?thesis
    unfolding cmp_fold_def
    by (auto simp: word_le_nat_alt simp flip: unat_eq_zero)
qed

lemma cmp_fold_0: "cmp_fold 0 = 0"
  by (simp add: cmp_fold_zero)

lemma peek_nonzero: "peek s \<noteq> 0 \<Longrightarrow> 0 < length s"
  by (cases s) (simp_all add: peek_def)

text \<open>
  \<open>_stricmp\<close>: the \<open>do ... while (c1 && (c1 == c2))\<close> loop reads one character of each
  string, folds both, and goes on while they are equal and not the terminator; the result is
  \<open>(unsigned char)c1 - (unsigned char)c2\<close> of the last pair read.
\<close>

function stricmp :: "byte list \<Rightarrow> byte list \<Rightarrow> int" where
  "stricmp lhs rhs =
     (if cmp_fold (peek lhs) \<noteq> 0 \<and> cmp_fold (peek lhs) = cmp_fold (peek rhs)
      then stricmp (tl lhs) (tl rhs)
      else uint (cmp_fold (peek lhs)) - uint (cmp_fold (peek rhs)))"
  by pat_completeness auto
termination
  by (relation "measure (\<lambda>(lhs, rhs). length lhs)")
     (auto simp: cmp_fold_zero dest: peek_nonzero)

declare stricmp.simps [simp del]

subsection \<open>The hash does not depend on the case of ASCII letters\<close>

lemma hash_fold_upper: "hash_fold (ascii_upper c) = hash_fold c"
  unfolding hash_fold_def ascii_upper_def
  by (auto simp: word_le_nat_alt byte_sub32)

lemma hash_fold_lower: "hash_fold (ascii_lower c) = hash_fold c"
  unfolding hash_fold_def ascii_lower_def
  by (auto simp: word_le_nat_alt byte_add32)

lemma ascii_upper_zero: "ascii_upper c = 0 \<longleftrightarrow> c = 0"
  unfolding ascii_upper_def
  by (auto simp: word_le_nat_alt byte_sub32 simp flip: unat_eq_zero)

lemma ascii_lower_zero: "ascii_lower c = 0 \<longleftrightarrow> c = 0"
proof -
  have "unat (c + 0x20) = unat c + 32" if "c \<le> 0x5A"
    using that by (intro byte_add32) (simp add: word_le_nat_alt)
  then show ?thesis
    unfolding ascii_lower_def
    by (auto simp: word_le_nat_alt simp flip: unat_eq_zero)
qed

lemma strlen_map: "(\<And>c. f c = 0 \<longleftrightarrow> c = 0) \<Longrightarrow> strlen (map f s) = strlen s"
  by (induction s) (simp_all add: strlen_def)

lemma peek_map: "f 0 = 0 \<Longrightarrow> peek (map f s) = f (peek s)"
  by (cases s) (simp_all add: peek_def)

lemma fnv1a_hash_n_map:
  fixes f :: "byte \<Rightarrow> byte"
  assumes "f 0 = 0" and "\<And>c. hash_fold (f c) = hash_fold c"
  shows "fnv1a_hash_n h (map f s) n = fnv1a_hash_n h s n"
  using assms
  by (induction n arbitrary: h s) (simp_all add: peek_map Let_def flip: map_tl)

lemma fnv1a_hash_map:
  fixes f :: "byte \<Rightarrow> byte"
  assumes "\<And>c. f c = 0 \<longleftrightarrow> c = 0" and "\<And>c. hash_fold (f c) = hash_fold c"
  shows "fnv1a_hash (map f s) = fnv1a_hash s"
  using assms by (simp add: fnv1a_hash_def strlen_map fnv1a_hash_n_map)

text \<open>
  C7. For every ASCII-only string \<open>s\<close> (all code units at most \<open>0x7F\<close>), the hash of \<open>s\<close>,
  the hash of \<open>s\<close> in upper case and the hash of \<open>s\<close> in lower case are the same value.
\<close>

theorem fnv1a_hash_case_insensitive:
  assumes "is_ascii s"
  shows "fnv1a_hash s = fnv1a_hash (map ascii_upper s) \<and>
         fnv1a_hash (map ascii_upper s) = fnv1a_hash (map ascii_lower s)"
  by (simp add: fnv1a_hash_map ascii_upper_zero ascii_lower_zero
        hash_fold_upper hash_fold_lower)

text \<open>Witness for C7: the name \<open>Sleep\<close>, with its upper-case and lower-case forms.\<close>

theorem fnv1a_hash_case_insensitive_witness:
  "is_ascii [0x53, 0x6C, 0x65, 0x65, 0x70] \<and>
   map ascii_upper [0x53, 0x6C, 0x65, 0x65, 0x70] = [0x53, 0x4C, 0x45, 0x45, 0x50] \<and>
   map ascii_lower [0x53, 0x6C, 0x65, 0x65, 0x70] = [0x73, 0x6C, 0x65, 0x65, 0x70] \<and>
   fnv1a_hash [0x53, 0x6C, 0x65, 0x65, 0x70 :: byte] =
     fnv1a_hash [0x53, 0x4C, 0x45, 0x45, 0x50 :: byte] \<and>
   fnv1a_hash [0x53, 0x4C, 0x45, 0x45, 0x50 :: byte] =
     fnv1a_hash [0x73, 0x6C, 0x65, 0x65, 0x70 :: byte]"
proof -
  have a: "is_ascii [0x53, 0x6C, 0x65, 0x65, 0x70]"
    by (simp add: is_ascii_def)
  have u: "map ascii_upper [0x53, 0x6C, 0x65, 0x65, 0x70] = [0x53, 0x4C, 0x45, 0x45, 0x50]"
    by (simp add: ascii_upper_def)
  have l: "map ascii_lower [0x53, 0x6C, 0x65, 0x65, 0x70] = [0x73, 0x6C, 0x65, 0x65, 0x70]"
    by (simp add: ascii_lower_def)
  show ?thesis
    using fnv1a_hash_case_insensitive [OF a] a unfolding u l by simp
qed

subsection \<open>The fold of the hasher against the fold of the comparators\<close>

lemma unat_hash_fold:
  "unat (hash_fold c) = (if 97 \<le> unat c then unat c - 32 else unat c)"
  unfolding hash_fold_def by (auto simp: word_le_nat_alt byte_sub32)

lemma unat_cmp_fold:
  "unat (cmp_fold c) = (if 65 \<le> unat c \<and> unat c \<le> 90 then unat c + 32 else unat c)"
  unfolding cmp_fold_def by (auto simp: word_le_nat_alt byte_add32)

lemma folds_agree_upto_z:
  assumes "c \<le> (0x7A::byte)" and "d \<le> (0x7A::byte)"
  shows "hash_fold c = hash_fold d \<longleftrightarrow> cmp_fold c = cmp_fold d"
proof -
  have "unat c \<le> 122" "unat d \<le> 122"
    using assms by (simp_all add: word_le_nat_alt)
  then have "unat (hash_fold c) = unat (hash_fold d) \<longleftrightarrow>
             unat (cmp_fold c) = unat (cmp_fold d)"
    unfolding unat_hash_fold unat_cmp_fold by (auto split: if_splits)
  then show ?thesis by (simp only: word_unat_eq_iff)
qed

lemma cmp_fold_imp_hash_fold:
  assumes "cmp_fold c = cmp_fold d"
  shows "hash_fold c = hash_fold d"
proof -
  have "unat (cmp_fold c) = unat (cmp_fold d)" using assms by simp
  then have "unat (hash_fold c) = unat (hash_fold d)"
    unfolding unat_hash_fold unat_cmp_fold by (auto split: if_splits)
  then show ?thesis by (simp only: word_unat_eq_iff)
qed

lemma cstr_Nil: "peek s = 0 \<Longrightarrow> cstr s = []"
  by (cases s) (simp_all add: peek_def cstr_def)

lemma cstr_Cons: "peek s \<noteq> 0 \<Longrightarrow> cstr s = peek s # cstr (tl s)"
  by (cases s) (simp_all add: peek_def cstr_def)

lemma upto_z_peek: "upto_z s \<Longrightarrow> peek s \<le> 0x7A"
  by (cases s) (simp_all add: peek_def upto_z_def)

lemma upto_z_tl: "upto_z s \<Longrightarrow> upto_z (tl s)"
  by (cases s) (simp_all add: upto_z_def)

lemma stricmp_zero_iff:
  "upto_z s \<Longrightarrow> upto_z t \<Longrightarrow>
   stricmp s t = 0 \<longleftrightarrow> map hash_fold (cstr s) = map hash_fold (cstr t)"
proof (induction s t rule: stricmp.induct)
  case (1 lhs rhs)
  let ?c1 = "cmp_fold (peek lhs)" and ?c2 = "cmp_fold (peek rhs)"
  have agree: "hash_fold (peek lhs) = hash_fold (peek rhs) \<longleftrightarrow> ?c1 = ?c2"
    using "1.prems" by (intro folds_agree_upto_z upto_z_peek)
  show ?case
  proof (cases "?c1 \<noteq> 0 \<and> ?c1 = ?c2")
    case True
    then have "?c1 \<noteq> 0" "?c2 \<noteq> 0" by auto
    then have nz: "peek lhs \<noteq> 0" "peek rhs \<noteq> 0"
      by (simp_all add: cmp_fold_zero)
    have step: "stricmp lhs rhs = stricmp (tl lhs) (tl rhs)"
      by (subst stricmp.simps) (use True in auto)
    have "stricmp (tl lhs) (tl rhs) = 0 \<longleftrightarrow>
          map hash_fold (cstr (tl lhs)) = map hash_fold (cstr (tl rhs))"
      using "1.prems" by (intro "1.IH" [OF True] upto_z_tl)
    moreover have "hash_fold (peek lhs) = hash_fold (peek rhs)"
      using agree True by auto
    ultimately show ?thesis
      by (simp add: step cstr_Cons nz)
  next
    case False
    have "stricmp lhs rhs = uint ?c1 - uint ?c2"
      using False by (subst stricmp.simps) auto
    then have eq: "stricmp lhs rhs = 0 \<longleftrightarrow> ?c1 = 0 \<and> ?c2 = 0"
      using False by (auto simp: word_uint_eq_iff)
    show ?thesis
    proof (cases "peek lhs = 0")
      case l0: True
      show ?thesis
      proof (cases "peek rhs = 0")
        case True
        with l0 eq show ?thesis by (simp add: cstr_Nil cmp_fold_zero)
      next
        case r: False
        with l0 eq show ?thesis by (simp add: cstr_Nil cstr_Cons cmp_fold_zero)
      qed
    next
      case l: False
      show ?thesis
      proof (cases "peek rhs = 0")
        case True
        with l eq show ?thesis
          by (simp add: cstr_Nil cstr_Cons cmp_fold_zero cmp_fold_0)
      next
        case r: False
        from l False have "?c1 \<noteq> ?c2" by (simp add: cmp_fold_zero)
        with agree l r eq show ?thesis by (simp add: cstr_Cons cmp_fold_zero)
      qed
    qed
  qed
qed

text \<open>
  C8, as stated, fails: the bytes \<open>'{'\<close> (\<open>0x7B\<close>) and \<open>'['\<close> (\<open>0x5B\<close>) are both ASCII, the
  hasher folds them to the same byte, and the comparator keeps them apart; so \<open>_stricmp\<close> of the
  strings \<open>"{"\<close> and \<open>"["\<close> is not \<open>0\<close> although their folded byte sequences are equal.
\<close>

theorem folds_disagree_counterexample:
  "is_ascii [0x7B, 0x5B] \<and>
   hash_fold 0x7B = hash_fold 0x5B \<and> cmp_fold 0x7B \<noteq> cmp_fold 0x5B \<and>
   stricmp [0x7B] [0x5B] \<noteq> 0 \<and>
   map hash_fold (cstr [0x7B]) = map hash_fold (cstr [0x5B])"
  by (simp add: is_ascii_def hash_fold_def cmp_fold_def stricmp.simps peek_def cstr_def)

text \<open>
  C8, amended. On the bytes up to \<open>'z'\<close> (\<open>0x7A\<close>) the two folds identify exactly the same
  pairs, and for strings of such bytes \<open>_stricmp\<close> is \<open>0\<close> exactly when the hasher's folded
  byte sequences are equal. On every byte, two bytes the comparator identifies are identified
  by the hasher too (the converse fails from \<open>'{'\<close> on, where the hasher's fold has no upper
  bound).
\<close>

theorem folds_agree_upto_z_and_stricmp:
  "(c \<le> 0x7A \<and> d \<le> 0x7A \<longrightarrow> (hash_fold c = hash_fold d \<longleftrightarrow> cmp_fold c = cmp_fold d)) \<and>
   (upto_z s \<and> upto_z t \<longrightarrow>
      (stricmp s t = 0 \<longleftrightarrow> map hash_fold (cstr s) = map hash_fold (cstr t))) \<and>
   (cmp_fold c = cmp_fold d \<longrightarrow> hash_fold c = hash_fold d)"
  using folds_agree_upto_z [of c d] stricmp_zero_iff [of s t] cmp_fold_imp_hash_fold [of c d]
  by blast

text \<open>Witness for C8: \<open>'k'\<close> against \<open>'K'\<close>, and the strings \<open>"Ab"\<close> and \<open>"aB"\<close>.\<close>

theorem folds_agree_upto_z_and_stricmp_witness:
  "(0x6B::byte) \<le> 0x7A \<and> (0x4B::byte) \<le> 0x7A \<and>
   hash_fold 0x6B = hash_fold 0x4B \<and> cmp_fold 0x6B = cmp_fold 0x4B \<and>
   upto_z [0x41, 0x62] \<and> upto_z [0x61, 0x42] \<and>
   stricmp [0x41, 0x62] [0x61, 0x42] = 0 \<and>
   map hash_fold (cstr [0x41, 0x62]) = map hash_fold (cstr [0x61, 0x42])"
proof -
  have b: "(0x6B::byte) \<le> 0x7A \<and> (0x4B::byte) \<le> 0x7A" by simp
  have f: "cmp_fold 0x6B = cmp_fold 0x4B" by (simp add: cmp_fold_def)
  have u: "upto_z [0x41, 0x62] \<and> upto_z [0x61, 0x42]" by (simp add: upto_z_def)
  have m: "map hash_fold (cstr [0x41, 0x62]) = map hash_fold (cstr [0x61, 0x42])"
    by (simp add: cstr_def hash_fold_def)
  show ?thesis
    using folds_agree_upto_z_and_stricmp [of "0x6B" "0x4B" "[0x41, 0x62]" "[0x61, 0x42]"]
      b f u m
    by blast
qed

section \<open>Obfuscated strings (\<open>runtime/xorstr.h\<close>)\<close>

text \<open>
  \<open>struct xor_string<CharT, N>\<close>: the fields \<open>key\<close>, \<open>len\<close> and \<open>data[N]\<close>. The key type
  has the width of the character type (\<open>uint8_t\<close> for \<open>char\<close>, \<open>uint16_t\<close> for \<open>wchar_t\<close>),
  so one type \<open>'c\<close> stands for both.
\<close>

record 'c xor_string =
  key :: 'c
  len :: 'c
  data :: "'c list"

text \<open>
  The \<open>consteval\<close> constructor, from the array \<open>str\<close> of \<open>N\<close> code units (the literal with
  its terminator) and the key \<open>k\<close>: \<open>len\<close> is \<open>N - 1\<close> cast to the key type, and every one
  of the \<open>N\<close> code units is XORed with the key.
\<close>

definition xor_string :: "'a::len word list \<Rightarrow> 'a word \<Rightarrow> 'a word xor_string" where
  "xor_string str k =
     \<lparr> key = k, len = of_nat (length str - 1), data = map (\<lambda>c. c XOR k) str \<rparr>"

text \<open>\<open>SCFW_XOR_KEY(c, CharT)\<close>, for the narrow and for the wide character type; \<open>c\<close> is
  \<open>__LINE__\<close>, and the cast keeps the low bits.\<close>

definition xor_key8 :: "int \<Rightarrow> 8 word" where
  "xor_key8 c = word_of_int ((c * 0x9E + 0x5A) OR 1)"

definition xor_key16 :: "int \<Rightarrow> 16 word" where
  "xor_key16 c = word_of_int ((c * 0x9E37 + 0x5A5A) OR 1)"

text \<open>
  The record in memory, in units of the key type: \<open>key\<close> at offset 0, \<open>len\<close> at offset 1 and
  the data from offset 2 on. Memory is a function from addresses (in these units) to code
  units; \<open>place\<close> stores a list at an address and \<open>fetch\<close> reads \<open>n\<close> units back.
\<close>

definition record_units :: "'c xor_string \<Rightarrow> 'c list" where
  "record_units x = key x # len x # data x"

definition place :: "nat \<Rightarrow> 'a list \<Rightarrow> (nat \<Rightarrow> 'a) \<Rightarrow> (nat \<Rightarrow> 'a)" where
  "place ptr xs mem = (\<lambda>a. if ptr \<le> a \<and> a < ptr + length xs then xs ! (a - ptr) else mem a)"

definition fetch :: "(nat \<Rightarrow> 'a) \<Rightarrow> nat \<Rightarrow> nat \<Rightarrow> 'a list" where
  "fetch mem ptr n = map mem [ptr ..< ptr + n]"

text \<open>
  \<open>decode_xor\<close>. Its loop \<open>for (key_type i = 0; i <= len; i++) str[i] ^= key;\<close> counts in
  the key type, so \<open>i++\<close> wraps around; the loop that never leaves is the value \<open>None\<close>.
  \<open>k\<close> and \<open>n\<close> are the locals \<open>key\<close> and \<open>len\<close>. The result is the returned pointer
  \<open>p + 2\<close> with the memory after the call.
\<close>

partial_function (option) decode_loop ::
  "'a::len word \<Rightarrow> 'a word \<Rightarrow> nat \<Rightarrow> (nat \<Rightarrow> 'a word) \<Rightarrow> 'a word \<Rightarrow> (nat \<Rightarrow> 'a word) option"
where
  "decode_loop k n str mem i =
     (if i \<le> n
      then decode_loop k n str (mem (str + unat i := mem (str + unat i) XOR k)) (i + 1)
      else Some mem)"

definition decode_xor :: "(nat \<Rightarrow> 'a::len word) \<Rightarrow> nat \<Rightarrow> (nat \<times> (nat \<Rightarrow> 'a word)) option" where
  "decode_xor mem p =
     (let k = mem p in
      if k \<noteq> 0 then
        (let n = mem (p + 1); str = p + 2 in
         case decode_loop k n str mem 0 of
           None \<Rightarrow> None
         | Some mem' \<Rightarrow> Some (p + 2, mem' (p := 0)))
      else Some (p + 2, mem))"

text \<open>\<open>contains ys xs\<close>: \<open>xs\<close> occurs in \<open>ys\<close> as a contiguous block (a byte-wise scan).\<close>

primrec contains :: "'a list \<Rightarrow> 'a list \<Rightarrow> bool" where
  "contains [] xs = (xs = [])"
| "contains (y # ys) xs = (take (length xs) (y # ys) = xs \<or> contains ys xs)"

text \<open>\<open>len_run k n\<close>: the \<open>n\<close> code units that alternate between \<open>n\<close> and \<open>n XOR k\<close>,
  starting with \<open>n\<close>. This is the one literal of length \<open>n\<close> that the record of its own
  encoding holds from the \<open>len\<close> field on.\<close>

definition len_run :: "'a::len word \<Rightarrow> nat \<Rightarrow> 'a word list" where
  "len_run k n = map (\<lambda>i. if even i then of_nat n else of_nat n XOR k) [0..<n]"


lemma xor_key8_nonzero: "xor_key8 c \<noteq> 0"
proof -
  have "bit (xor_key8 c) 0"
    by (simp add: xor_key8_def bit_word_of_int_iff bit_or_iff)
  then show ?thesis by (metis bit_0_eq le_boolE bot_apply bot_bool_def)
qed

lemma xor_key16_nonzero: "xor_key16 c \<noteq> 0"
proof -
  have "bit (xor_key16 c) 0"
    by (simp add: xor_key16_def bit_word_of_int_iff bit_or_iff)
  then show ?thesis by (metis bit_0_eq le_boolE bot_apply bot_bool_def)
qed

lemma decode_loop_result:
  fixes n i :: "'a::len word"
  assumes "unat n < 2 ^ LENGTH('a) - 1" and "unat i \<le> unat n + 1"
  shows "decode_loop k n str mem i =
         Some (\<lambda>a. if str + unat i \<le> a \<and> a \<le> str + unat n then mem a XOR k else mem a)"
  using assms(2)
proof (induction "unat n + 1 - unat i" arbitrary: i mem)
  case 0
  then have "unat i = unat n + 1" by simp
  then have "\<not> i \<le> n" by (simp add: word_le_nat_alt)
  then show ?case
    using \<open>unat i = unat n + 1\<close> by (subst decode_loop.simps) (auto simp: fun_eq_iff)
next
  case (Suc m)
  then have le: "unat i \<le> unat n" by simp
  then have "i \<le> n" by (simp add: word_le_nat_alt)
  have "unat i + 1 < 2 ^ LENGTH('a)" using le assms(1) by simp
  then have u: "unat (i + 1) = unat i + 1"
    by (simp add: unat_add_lem [THEN iffD1])
  have "decode_loop k n str mem i =
        decode_loop k n str (mem (str + unat i := mem (str + unat i) XOR k)) (i + 1)"
    using \<open>i \<le> n\<close> by (subst decode_loop.simps) simp
  also have "\<dots> = Some (\<lambda>a. if str + unat (i + 1) \<le> a \<and> a \<le> str + unat n
        then (mem (str + unat i := mem (str + unat i) XOR k)) a XOR k
        else (mem (str + unat i := mem (str + unat i) XOR k)) a)"
    using Suc.hyps(2) le u by (intro Suc.hyps(1)) simp_all
  also have "\<dots> = Some (\<lambda>a. if str + unat i \<le> a \<and> a \<le> str + unat n then mem a XOR k else mem a)"
    using le u by (auto simp: fun_eq_iff)
  finally show ?case .
qed


lemma place_nth: "i < length xs \<Longrightarrow> place p xs mem (p + i) = xs ! i"
  by (simp add: place_def)

lemma place_outside: "a < p \<or> p + length xs \<le> a \<Longrightarrow> place p xs mem a = mem a"
  by (auto simp: place_def)

lemma fetch_eq_iff: "fetch mem p n = xs \<longleftrightarrow> length xs = n \<and> (\<forall>i<n. mem (p + i) = xs ! i)"
  by (auto simp: fetch_def list_eq_iff_nth_eq)

lemma contains_iff: "contains ys xs \<longleftrightarrow> (\<exists>ps ss. ys = ps @ xs @ ss)"
proof (induction ys)
  case Nil
  then show ?case by auto
next
  case (Cons y ys)
  have "take (length xs) (y # ys) = xs \<longleftrightarrow> (\<exists>ss. y # ys = xs @ ss)"
    by (metis append_eq_conv_conj append_take_drop_id)
  moreover have "(\<exists>ps ss. y # ys = ps @ xs @ ss) \<longleftrightarrow>
      (\<exists>ss. y # ys = xs @ ss) \<or> (\<exists>ps ss. ys = ps @ xs @ ss)"
    by (auto simp: Cons_eq_append_conv)
  ultimately show ?case using Cons.IH by simp
qed

lemma contains_same_length: "length ys = length xs \<Longrightarrow> contains ys xs \<longleftrightarrow> ys = xs"
proof
  assume "contains ys xs" and l: "length ys = length xs"
  then obtain ps ss where "ys = ps @ xs @ ss" by (auto simp: contains_iff)
  with l show "ys = xs" by auto
next
  assume "ys = xs"
  then have "ys = [] @ xs @ []" by simp
  then show "contains ys xs" unfolding contains_iff by blast
qed

lemma xor_nonzero_neq: "(c::'a::len word) XOR k \<noteq> c" if "k \<noteq> 0"
proof
  assume "c XOR k = c"
  then have "c XOR (c XOR k) = c XOR c" by simp
  then show False using that by (simp flip: xor.assoc)
qed

lemma decode_xor_first:
  fixes s :: "'a::len word list" and p :: nat and mem :: "nat \<Rightarrow> 'a word"
  assumes k: "k \<noteq> 0" and n: "length s < 2 ^ LENGTH('a) - 1"
  defines "mem0 \<equiv> place p (record_units (xor_string (s @ [0]) k)) mem"
  defines "mem1 \<equiv> (\<lambda>a. if p + 2 \<le> a \<and> a \<le> p + 2 + length s then mem0 a XOR k else mem0 a)(p := 0)"
  shows "decode_xor mem0 p = Some (p + 2, mem1)"
    and "mem1 p = 0"
    and "fetch mem1 (p + 2) (length s + 1) = s @ [0]"
    and "decode_xor mem1 p = Some (p + 2, mem1)"
proof -
  let ?units = "record_units (xor_string (s @ [0]) k)"
  have len_units: "length ?units = length s + 3"
    by (simp add: record_units_def xor_string_def)
  have k0: "mem0 p = k"
    using place_nth [of 0 ?units p mem] by (simp add: mem0_def record_units_def xor_string_def)
  have n0: "mem0 (p + 1) = of_nat (length s)"
    using place_nth [of 1 ?units p mem] by (simp add: mem0_def record_units_def xor_string_def)
  have un: "unat (of_nat (length s) :: 'a word) = length s"
    using n by (simp add: unat_of_nat)
  have loop: "decode_loop k (of_nat (length s)) (p + 2) mem0 0 =
      Some (\<lambda>a. if p + 2 \<le> a \<and> a \<le> p + 2 + length s then mem0 a XOR k else mem0 a)"
    using decode_loop_result [of "of_nat (length s) :: 'a word" 0 k "p + 2" mem0] n
    by (simp add: un)
  show d1: "decode_xor mem0 p = Some (p + 2, mem1)"
    unfolding decode_xor_def Let_def k0 n0 loop mem1_def using k by simp
  show z: "mem1 p = 0" by (simp add: mem1_def)
  have "mem1 (p + 2 + i) = (s @ [0]) ! i" if "i < length s + 1" for i
  proof -
    have "mem0 (p + (2 + i)) = ?units ! (2 + i)"
      unfolding mem0_def using that by (intro place_nth) (simp add: len_units)
    also have "\<dots> = (s @ [0]) ! i XOR k"
      using that by (auto simp: record_units_def xor_string_def nth_append)
    finally show ?thesis using that by (simp add: mem1_def add.assoc xor.assoc)
  qed
  then show "fetch mem1 (p + 2) (length s + 1) = s @ [0]"
    by (simp add: fetch_eq_iff)
  show "decode_xor mem1 p = Some (p + 2, mem1)"
    by (simp add: decode_xor_def z)
qed

lemma encoded_differs:
  fixes s :: "'a::len word list"
  assumes k: "k \<noteq> 0"
  shows "\<forall>i \<le> length s. data (xor_string (s @ [0]) k) ! i \<noteq> (s @ [0]) ! i"
    and "\<not> contains (data (xor_string (s @ [0]) k)) (s @ [0])"
proof -
  show a: "\<forall>i \<le> length s. data (xor_string (s @ [0]) k) ! i \<noteq> (s @ [0]) ! i"
    using k by (auto simp: xor_string_def nth_append xor_nonzero_neq split: if_splits)
  have "data (xor_string (s @ [0]) k) \<noteq> s @ [0]"
    using a by (metis le_refl)
  then show "\<not> contains (data (xor_string (s @ [0]) k)) (s @ [0])"
    by (subst contains_same_length) (simp_all add: xor_string_def)
qed


text \<open>With \<open>len\<close> at the largest value of the key type the loop condition \<open>i <= len\<close> never
  fails, and the loop never returns.\<close>

lemma decode_loop_max_len:
  assumes "decode_loop k n str mem i = Some m"
  shows "n \<noteq> - 1"
proof (rule decode_loop.raw_induct [where P = "\<lambda>k n str mem i m. n \<noteq> - 1", OF _ assms])
  fix f :: "'a word \<Rightarrow> 'a word \<Rightarrow> nat \<Rightarrow> (nat \<Rightarrow> 'a word) \<Rightarrow> 'a word \<Rightarrow> (nat \<Rightarrow> 'a word) option"
  fix k n :: "'a word" and str mem i ka
  assume ih: "\<And>n str mem i b y. f n str mem i b = Some y \<Longrightarrow> str \<noteq> - 1"
    and body: "(if i \<le> n then f k n str (mem(str + unat i := mem (str + unat i) XOR k)) (i + 1)
                else Some mem) = Some ka"
  show "n \<noteq> - 1"
  proof (cases "i \<le> n")
    case True
    with body ih show ?thesis by auto
  next
    case False
    then show ?thesis by (auto simp: word_n1_ge)
  qed
qed

lemma decode_loop_diverges: "decode_loop k (- 1) str mem i = None"
  using decode_loop_max_len [of k "- 1" str mem i] by (cases "decode_loop k (- 1) str mem i") auto

subsection \<open>Where the literal can occur in the record\<close>

lemma contains_nth:
  "contains ys xs \<longleftrightarrow>
   (\<exists>j. j + length xs \<le> length ys \<and> (\<forall>i<length xs. ys ! (j + i) = xs ! i))"
proof
  assume "contains ys xs"
  then obtain ps ss where ys: "ys = ps @ xs @ ss" by (auto simp: contains_iff)
  have "length ps + length xs \<le> length ys" by (simp add: ys)
  moreover have "\<forall>i<length xs. ys ! (length ps + i) = xs ! i"
    by (simp add: ys nth_append)
  ultimately show "\<exists>j. j + length xs \<le> length ys \<and> (\<forall>i<length xs. ys ! (j + i) = xs ! i)"
    by blast
next
  assume "\<exists>j. j + length xs \<le> length ys \<and> (\<forall>i<length xs. ys ! (j + i) = xs ! i)"
  then obtain j where j: "j + length xs \<le> length ys"
    and eq: "\<forall>i<length xs. ys ! (j + i) = xs ! i" by blast
  have "take (length xs) (drop j ys) = xs"
    using j eq by (intro nth_equalityI) simp_all
  then have "ys = take j ys @ xs @ drop (length xs) (drop j ys)"
    by (metis append_take_drop_id)
  then show "contains ys xs" unfolding contains_iff by blast
qed


lemma data_nth:
  fixes s :: "'a::len word list"
  shows "length (data (xor_string (s @ [0]) k)) = length s + 1"
    and "i < length s \<Longrightarrow> data (xor_string (s @ [0]) k) ! i = s ! i XOR k"
    and "data (xor_string (s @ [0]) k) ! length s = k"
  by (simp_all add: xor_string_def nth_append)

lemma data_contains_long:
  fixes s :: "'a::len word list"
  assumes k: "k \<noteq> 0" and nz: "0 \<notin> set s" and n: "2 \<le> length s"
  shows "\<not> contains (data (xor_string (s @ [0]) k)) s"
proof
  let ?d = "data (xor_string (s @ [0]) k)"
  assume "contains ?d s"
  then obtain j where j: "j + length s \<le> length s + 1"
    and eq: "\<And>i. i < length s \<Longrightarrow> ?d ! (j + i) = s ! i"
    unfolding contains_nth data_nth(1) by blast
  have l0: "0 < length s" and l1: "length s - 1 < length s" and l2: "length s - 2 < length s"
    and l3: "Suc (length s - 2) = length s - 1" and l4: "Suc (length s - 1) = length s"
    using n by linarith+
  from j consider "j = 0" | "j = 1" by linarith
  then show False
  proof cases
    case 1
    have "?d ! 0 = s ! 0" using eq [OF l0] 1 by simp
    moreover have "?d ! 0 = s ! 0 XOR k" by (rule data_nth(2) [OF l0])
    ultimately show False using xor_nonzero_neq [OF k, of "s ! 0"] by simp
  next
    case 2
    have "?d ! length s = s ! (length s - 1)" using eq [OF l1] 2 l4 by simp
    then have a: "s ! (length s - 1) = k" by (simp add: data_nth(3))
    have "?d ! (length s - 1) = s ! (length s - 2)" using eq [OF l2] 2 l3 by simp
    moreover have "?d ! (length s - 1) = s ! (length s - 1) XOR k" by (rule data_nth(2) [OF l1])
    ultimately have "s ! (length s - 2) = 0" using a by simp
    moreover have "s ! (length s - 2) \<in> set s" using l2 by (rule nth_mem)
    ultimately show False using nz by metis
  qed
qed

lemma data_contains_single:
  fixes c :: "'a::len word"
  assumes k: "k \<noteq> 0"
  shows "contains (data (xor_string ([c] @ [0]) k)) [c] \<longleftrightarrow> c = k"
  using xor_nonzero_neq [OF k, of c] by (auto simp: xor_string_def)

lemma data_contains:
  fixes s :: "'a::len word list"
  assumes k: "k \<noteq> 0" and nz: "0 \<notin> set s"
  shows "contains (data (xor_string (s @ [0]) k)) s \<longleftrightarrow> s = [] \<or> s = [k]"
proof (cases "2 \<le> length s")
  case True
  then have "s \<noteq> []" "s \<noteq> [k]" by auto
  then show ?thesis using data_contains_long [OF k nz True] by simp
next
  case False
  then consider "s = []" | c where "s = [c]"
    by (cases s; cases "tl s") auto
  then show ?thesis
  proof cases
    case 1
    then show ?thesis by (simp add: xor_string_def)
  next
    case 2
    then show ?thesis using data_contains_single [OF k, of c] by simp
  qed
qed

lemma record_prefix:
  fixes s :: "'a::len word list"
  assumes k: "k \<noteq> 0" and nz: "0 \<notin> set s"
  shows "take (length s) (record_units (xor_string (s @ [0]) k)) = s \<longleftrightarrow>
         s = [] \<or> s = [k] \<or> s = [k, 2]"
proof (cases s)
  case Nil
  then show ?thesis by simp
next
  case s1: (Cons a s')
  show ?thesis
  proof (cases s')
    case Nil
    then show ?thesis using s1 by (auto simp: record_units_def xor_string_def)
  next
    case s2: (Cons b t)
    show ?thesis
    proof (cases t)
      case Nil
      then show ?thesis using s1 s2 by (auto simp: record_units_def xor_string_def)
    next
      case (Cons c u)
      have "c \<noteq> 0" using nz s1 s2 Cons by auto
      then show ?thesis using s1 s2 Cons by (auto simp: record_units_def xor_string_def)
    qed
  qed
qed

lemma len_run_nth:
  "i < n \<Longrightarrow> len_run k n ! i = (if even i then of_nat n else of_nat n XOR k)"
  by (simp add: len_run_def)

lemma record_from_len:
  fixes s :: "'a::len word list"
  shows "take (length s) (tl (record_units (xor_string (s @ [0]) k))) = s \<longleftrightarrow>
         s = len_run k (length s)"
proof -
  let ?r = "tl (record_units (xor_string (s @ [0]) k))"
  have r0: "?r ! 0 = of_nat (length s)"
    by (simp add: record_units_def xor_string_def)
  have rS: "?r ! Suc i = s ! i XOR k" if "i < length s" for i
    using that by (simp add: record_units_def xor_string_def nth_append)
  have lr: "length ?r = length s + 2"
    by (simp add: record_units_def xor_string_def)
  have tk: "take (length s) ?r = s \<longleftrightarrow> (\<forall>i<length s. ?r ! i = s ! i)"
    using lr by (auto simp: list_eq_iff_nth_eq)
  show ?thesis
  proof
    assume "take (length s) ?r = s"
    then have eq: "\<And>i. i < length s \<Longrightarrow> s ! i = ?r ! i" using tk by simp
    have "s ! i = (if even i then of_nat (length s) else of_nat (length s) XOR k)"
      if "i < length s" for i
      using that
    proof (induction i)
      case 0
      then show ?case using eq [of 0] r0 by simp
    next
      case (Suc i)
      then have "s ! Suc i = s ! i XOR k" using eq [of "Suc i"] rS [of i] by simp
      then show ?case using Suc by (simp add: xor.assoc)
    qed
    then show "s = len_run k (length s)"
      by (intro nth_equalityI) (simp_all add: len_run_def)
  next
    assume s: "s = len_run k (length s)"
    have n: "s ! i = (if even i then of_nat (length s) else of_nat (length s) XOR k)"
      if "i < length s" for i
      using len_run_nth [OF that, of k] s by simp
    have "?r ! i = s ! i" if "i < length s" for i
    proof (cases i)
      case 0
      then show ?thesis using n [OF that] r0 by simp
    next
      case (Suc m)
      then have "m < length s" using that by simp
      then show ?thesis using rS [of m] n [of m] n [OF that] Suc by (simp add: xor.assoc)
    qed
    then show "take (length s) ?r = s" using tk by simp
  qed
qed

lemma record_contains:
  fixes s :: "'a::len word list"
  assumes k: "k \<noteq> 0" and nz: "0 \<notin> set s"
  shows "contains (record_units (xor_string (s @ [0]) k)) s \<longleftrightarrow>
         s = [k] \<or> s = [k, 2] \<or> s = len_run k (length s)"
proof -
  let ?x = "xor_string (s @ [0]) k"
  have u: "record_units ?x = key ?x # len ?x # data ?x" by (simp add: record_units_def)
  have "contains (record_units ?x) s \<longleftrightarrow>
        take (length s) (record_units ?x) = s \<or>
        take (length s) (tl (record_units ?x)) = s \<or> contains (data ?x) s"
    unfolding u by simp
  also have "\<dots> \<longleftrightarrow> (s = [] \<or> s = [k] \<or> s = [k, 2]) \<or> s = len_run k (length s) \<or> (s = [] \<or> s = [k])"
    unfolding record_prefix [OF k nz] record_from_len data_contains [OF k nz] ..
  also have "\<dots> \<longleftrightarrow> s = [k] \<or> s = [k, 2] \<or> s = len_run k (length s)"
    by (auto simp: len_run_def)
  finally show ?thesis .
qed

text \<open>
  C9, amended. For a literal \<open>s\<close> of fewer than \<open>2 ^ w - 1\<close> code units (\<open>w\<close> the width of
  the key type: fewer than 255 narrow characters) encoded with a non-zero key, and both
  derived keys are non-zero: the first \<open>decode_xor\<close> on the record returns the pointer to the
  data, where the original code units of \<open>s\<close> with the terminator now stand, and sets the stored
  key to zero; a further call returns the same pointer and leaves the memory as it is. Every
  encoded code unit differs from the original one at its position, so the literal with its
  terminator does not occur in the encoded data. And for a literal without an embedded NUL,
  scanned in code units: the encoded data contains \<open>s\<close> only when \<open>s\<close> is empty or is the
  one character equal to the key (the encoded terminator is the key); the whole record contains
  \<open>s\<close> only then, or when \<open>s\<close> is the key followed by the character \<open>\002\<close> (the key and
  the length field), or when \<open>s\<close> is \<open>len_run k (length s)\<close> (it starts at the length field).
\<close>

theorem xor_string_decode:
  fixes s :: "'a::len word list" and p :: nat and mem :: "nat \<Rightarrow> 'a word"
  assumes "k \<noteq> 0" and "length s < 2 ^ LENGTH('a) - 1"
  shows "xor_key8 line \<noteq> 0 \<and> xor_key16 line \<noteq> 0 \<and>
    (\<exists>mem1. decode_xor (place p (record_units (xor_string (s @ [0]) k)) mem) p = Some (p + 2, mem1) \<and>
       mem1 p = 0 \<and> fetch mem1 (p + 2) (length s + 1) = s @ [0] \<and>
       decode_xor mem1 p = Some (p + 2, mem1)) \<and>
    (\<forall>i \<le> length s. data (xor_string (s @ [0]) k) ! i \<noteq> (s @ [0]) ! i) \<and>
    \<not> contains (data (xor_string (s @ [0]) k)) (s @ [0]) \<and>
    (0 \<notin> set s \<longrightarrow>
       (contains (data (xor_string (s @ [0]) k)) s \<longleftrightarrow> s = [] \<or> s = [k]) \<and>
       (contains (record_units (xor_string (s @ [0]) k)) s \<longleftrightarrow>
          s = [k] \<or> s = [k, 2] \<or> s = len_run k (length s)))"
proof -
  have "0 \<notin> set s \<longrightarrow>
       (contains (data (xor_string (s @ [0]) k)) s \<longleftrightarrow> s = [] \<or> s = [k]) \<and>
       (contains (record_units (xor_string (s @ [0]) k)) s \<longleftrightarrow>
          s = [k] \<or> s = [k, 2] \<or> s = len_run k (length s))"
    using data_contains [OF assms(1), of s] record_contains [OF assms(1), of s] by simp
  then show ?thesis
    using decode_xor_first [OF assms, of p mem] encoded_differs [OF assms(1), of s]
      xor_key8_nonzero [of line] xor_key16_nonzero [of line]
    by blast
qed

text \<open>Witness for C9: the literal \<open>"Hi"\<close> on source line 18, stored at address 16; it occurs
  neither in the encoded data nor anywhere in the record.\<close>

theorem xor_string_decode_witness:
  "xor_key8 18 = 0x77 \<and>
   (\<exists>mem1. decode_xor (place 16 (record_units (xor_string ([0x48, 0x69] @ [0]) (xor_key8 18))) (\<lambda>_. 0)) 16
        = Some (18, mem1) \<and>
      mem1 16 = 0 \<and> fetch mem1 18 3 = [0x48, 0x69, 0] \<and>
      decode_xor mem1 16 = Some (18, mem1)) \<and>
   data (xor_string ([0x48, 0x69] @ [0]) (xor_key8 18)) = [0x3F, 0x1E, 0x77] \<and>
   \<not> contains (data (xor_string ([0x48, 0x69] @ [0]) (xor_key8 18))) [0x48, 0x69] \<and>
   \<not> contains (record_units (xor_string ([0x48, 0x69] @ [0]) (xor_key8 18))) [0x48, 0x69]"
proof -
  have k: "xor_key8 18 = 0x77" by (simp add: xor_key8_def)
  have nz: "xor_key8 18 \<noteq> 0" by (simp add: k)
  have l: "length [0x48, 0x69 :: 8 word] < 2 ^ LENGTH(8) - 1" by simp
  have d: "data (xor_string ([0x48, 0x69] @ [0]) (xor_key8 18)) = [0x3F, 0x1E, 0x77]"
    by (simp add: k xor_string_def)
  have z: "0 \<notin> set [0x48, 0x69 :: 8 word]" by simp
  have r: "len_run (0x77 :: 8 word) (length [0x48, 0x69 :: 8 word]) \<noteq> [0x48, 0x69]"
    by (simp add: len_run_def upt_rec)
  show ?thesis
    using xor_string_decode [OF nz l, of 18 16 "\<lambda>_. 0"] k d z r by (simp add: numeral_3_eq_3)
qed

lemma place_small:
  "place 0 (a # b # c # d # e # xs) mem 0 = a"
  "place 0 (a # b # c # d # e # xs) mem (Suc 0) = b"
  "place 0 (a # b # c # d # e # xs) mem 2 = c"
  "place 0 (a # b # c # d # e # xs) mem 3 = d"
  "place 0 (a # b # c # d # e # xs) mem 4 = e"
  by (simp_all add: place_def numeral_2_eq_2 numeral_3_eq_3 eval_nat_numeral)

text \<open>
  C9, as stated, fails in three ways. (1) The record can contain the literal: \<open>_TX("5")\<close> on
  source line 3 has the key \<open>0x35\<close>, which is \<open>'5'\<close> itself, so the key byte (and the encoded
  terminator) is the literal; with the literal \<open>"5\002"\<close> on that line the record starts with
  the literal and its terminator. (2) A literal of 256 characters has \<open>len = 0\<close> after the cast
  to \<open>uint8_t\<close>, and the first decode restores one character only. (3) A literal of 255
  characters has \<open>len = 255\<close>, and the decode loop never returns.
\<close>

theorem xor_string_counterexample:
  "contains (record_units (xor_string ([0x35] @ [0]) (xor_key8 3))) [0x35] \<and>
   contains (record_units (xor_string ([0x35, 0x02] @ [0]) (xor_key8 3))) ([0x35, 0x02] @ [0]) \<and>
   map_option (\<lambda>(q, m). (q, fetch m q 3))
     (decode_xor (place 0 (record_units (xor_string (replicate 256 0x41 @ [0]) (xor_key8 1))) (\<lambda>_. 0)) 0)
     = Some (2, [0x41, 0xB8, 0xB8]) \<and>
   decode_xor (place 0 (record_units (xor_string (replicate 255 0x41 @ [0]) (xor_key8 1))) (\<lambda>_. 0)) 0
     = None"
proof -
  have e: "(0::nat) + 2 = 2" by simp
  have k3: "xor_key8 3 = 0x35" and k1: "xor_key8 1 = 0xF9"
    by (simp_all add: xor_key8_def)
  have a: "contains (record_units (xor_string ([0x35] @ [0]) (xor_key8 3))) [0x35]"
    by (simp add: k3 xor_string_def record_units_def)
  have b: "contains (record_units (xor_string ([0x35, 0x02] @ [0]) (xor_key8 3))) ([0x35, 0x02] @ [0])"
    by (simp add: k3 xor_string_def record_units_def)
  have r256: "replicate 256 (0x41 :: 8 word) = 0x41 # 0x41 # 0x41 # replicate 253 0x41"
    by (simp add: eval_nat_numeral)
  have r255: "replicate 255 (0x41 :: 8 word) = 0x41 # 0x41 # 0x41 # replicate 252 0x41"
    by (simp add: eval_nat_numeral)
  let ?m = "place 0 (record_units (xor_string (replicate 256 0x41 @ [0]) (xor_key8 1))) (\<lambda>_. 0 :: 8 word)"
  have u: "record_units (xor_string (replicate 256 0x41 @ [0]) (xor_key8 1)) =
      0xF9 # 0 # 0xB8 # 0xB8 # 0xB8 # map (\<lambda>c. c XOR 0xF9) (replicate 253 0x41 @ [0])"
    by (simp add: k1 xor_string_def record_units_def r256)
  have loop: "decode_loop 0xF9 0 2 ?m 0 = Some (?m (2 := ?m 2 XOR 0xF9))"
    by (subst decode_loop.simps, simp, subst decode_loop.simps, simp)
  have m0: "?m 0 = 0xF9" and m1: "?m (0 + 1) = 0"
    and m2: "?m 2 = 0xB8" and m3: "?m 3 = 0xB8" and m4: "?m 4 = 0xB8"
    by (simp_all add: u place_small)
  have dx: "decode_xor ?m 0 = Some (2, (?m (2 := ?m 2 XOR 0xF9)) (0 := 0))"
    unfolding decode_xor_def Let_def m0 m1 e loop by simp
  have c: "map_option (\<lambda>(q, m). (q, fetch m q 3)) (decode_xor ?m 0) = Some (2, [0x41, 0xB8, 0xB8])"
    unfolding dx by (simp add: fetch_def upt_rec m2 m3 m4)
  let ?h = "place 0 (record_units (xor_string (replicate 255 0x41 @ [0]) (xor_key8 1))) (\<lambda>_. 0 :: 8 word)"
  have v: "record_units (xor_string (replicate 255 0x41 @ [0]) (xor_key8 1)) =
      0xF9 # 0xFF # 0xB8 # 0xB8 # 0xB8 # map (\<lambda>c. c XOR 0xF9) (replicate 252 0x41 @ [0])"
    by (simp add: k1 xor_string_def record_units_def r255)
  have h0: "?h 0 = 0xF9" and h1: "?h (0 + 1) = - 1"
    by (simp_all add: v place_small)
  have d: "decode_xor ?h 0 = None"
    unfolding decode_xor_def Let_def h0 h1 e decode_loop_diverges by simp
  from a b c d show ?thesis by blast
qed

section \<open>The dispatch table (\<open>runtime.h\<close>, \<open>usermode.h\<close>, \<open>kernelmode.h\<close>)\<close>

text \<open>
  Pointers are addresses, \<open>0\<close> is the null pointer. A string literal is its bytes; \<open>_T(s)\<close>
  hands the literal to the callee (directly, or after the one-shot decode of the previous
  section), so it does not appear in the model.
\<close>

type_synonym ptr = nat

definition lit :: "string \<Rightarrow> byte list" where
  "lit s = map (\<lambda>c. of_nat (of_char c)) s"

subsection \<open>Flags, entries, compile-time options\<close>

definition SCFW_FLAG_DYNAMIC_RESOLVE :: "32 word" where "SCFW_FLAG_DYNAMIC_RESOLVE = 0x01"
definition SCFW_FLAG_DYNAMIC_LOAD :: "32 word" where "SCFW_FLAG_DYNAMIC_LOAD = 0x02"
definition SCFW_FLAG_DYNAMIC_UNLOAD :: "32 word" where "SCFW_FLAG_DYNAMIC_UNLOAD = 0x04"
definition SCFW_FLAG_STRING_MODULE :: "32 word" where "SCFW_FLAG_STRING_MODULE = 0x08"
definition SCFW_FLAG_STRING_SYMBOL :: "32 word" where "SCFW_FLAG_STRING_SYMBOL = 0x10"

text \<open>
  One declared import: \<open>IMPORT_MODULE\<close> gives an entry of kind \<open>module\<close> with its
  \<open>module_flags\<close>, \<open>IMPORT_SYMBOL\<close> one of kind \<open>symbol\<close> with its \<open>entry_flags\<close>. The
  chain \<open>dispatch_table_impl<1>, ..., dispatch_table_impl<N>\<close> is the list of the entries in
  declaration order: \<open>dispatch_table_impl<Id + 1>\<close> is the entry \<open>es ! Id\<close>, and \<open>Id + 1\<close> is
  its ordinal. (\<open>Id\<close> is written \<open>Id'\<close>.)
\<close>

datatype entry_kind = module | symbol

record import_entry =
  entry_type :: entry_kind
  name :: "byte list"
  flags :: "32 word"

text \<open>The platform (\<open>SCFW_MODE\<close>) and the \<open>#define\<close>s the code is compiled under.\<close>

datatype mode = user_mode | kernel_mode

record config =
  SCFW_MODE :: mode
  SCFW_ENABLE_CLEANUP :: bool
  SCFW_ENABLE_LOAD_MODULE :: bool
  SCFW_ENABLE_UNLOAD_MODULE :: bool
  SCFW_ENABLE_LOOKUP_SYMBOL :: bool
  SCFW_ENABLE_FULL_MODULE_SEARCH :: bool
  SCFW_ENABLE_INIT_MODULES_BY_STRING :: bool
  SCFW_ENABLE_INIT_SYMBOLS_BY_STRING :: bool
  M_IX86 :: bool

text \<open>
  The table: the header fields \<open>cleanup_\<close>, \<open>free_\<close>, \<open>load_module_\<close>, \<open>unload_module_\<close>,
  \<open>lookup_symbol_\<close> (written with the prefix \<open>dt_\<close>), the platform state \<open>mode_.kernel_base\<close>,
  and one slot per entry (\<open>module_\<close> or \<open>slot_Name_\<close>), in declaration order. A header field
  whose feature is disabled does not exist in the C++ object; here it is never written.
\<close>

record dispatch_table =
  dt_cleanup :: ptr
  dt_free :: ptr
  dt_load_module :: ptr
  dt_unload_module :: ptr
  dt_lookup_symbol :: ptr
  kernel_base :: ptr
  slots :: "ptr list"


subsection \<open>The host\<close>

text \<open>
  What the process around the payload answers: the addresses the assembly gives (\<open>_pc()\<close>,
  \<open>&_pc\<close>, the cleanup stubs), the module walks and export lookups of \<open>common.h\<close>
  (\<open>windows::usermode::find_module\<close>, \<open>find_module_ntdll\<close>, \<open>find_module_kernel32\<close>,
  \<open>windows::kernelmode::find_module\<close>, \<open>windows::lookup_symbol\<close>, each by name and by hash),
  and what a call through a resolved function pointer returns (\<open>load_module_(name)\<close>,
  \<open>lookup_symbol_(module, name)\<close>). The dispatch chain is verified for every host.
\<close>

record host =
  pc_runtime :: ptr
  pc_compiled :: ptr
  cleanup_usermode :: ptr
  cleanup_kernelmode :: ptr
  find_module_ntdll :: ptr
  find_module_kernel32 :: ptr
  um_find_module :: "byte list \<Rightarrow> ptr"
  um_find_module_hash :: "32 word \<Rightarrow> ptr"
  km_find_module :: "ptr \<Rightarrow> byte list \<Rightarrow> ptr"
  km_find_module_hash :: "ptr \<Rightarrow> 32 word \<Rightarrow> ptr"
  pe_lookup_symbol :: "ptr \<Rightarrow> byte list \<Rightarrow> ptr"
  pe_lookup_symbol_hash :: "ptr \<Rightarrow> 32 word \<Rightarrow> ptr"
  call_load_module :: "ptr \<Rightarrow> byte list \<Rightarrow> ptr"
  call_lookup_symbol :: "ptr \<Rightarrow> ptr \<Rightarrow> byte list \<Rightarrow> ptr"

text \<open>
  The host answers an export lookup for the image mapped at a module base, and a call for the
  code at the address called; nothing is mapped at the null pointer.
  \<open>windows::lookup_symbol(module, ...)\<close>, to which \<open>mode_traits<Mode>::lookup_symbol\<close>
  forwards in both modes, starts with \<open>DosHeader->e_lfanew\<close>, a read through \<open>module\<close>, and
  neither it nor any of its callers tests \<open>module\<close> first: with \<open>module == nullptr\<close> the call
  does not return, which is the value \<open>Inl null_module_read\<close>.
  \<open>windows::kernelmode::find_module(kernel_base, ...)\<close> starts with three such lookups in
  \<open>kernel_base\<close>, so it does not return either when \<open>kernel_base\<close> is null. The members
  \<open>load_module\<close>, \<open>unload_module\<close> and \<open>lookup_symbol\<close> of the base call through the
  header fields \<open>load_module_\<close>, \<open>unload_module_\<close> and \<open>lookup_symbol_\<close> untested: through
  a null field the call does not return, \<open>Inl null_function_call\<close>. A computation that can
  end in one of these ways returns a value of type \<open>trap + 'a\<close>, and \<open>and_then\<close> sequences
  two of them.
\<close>

datatype trap = null_module_read | null_function_call

definition and_then :: "trap + 'a \<Rightarrow> ('a \<Rightarrow> trap + 'b) \<Rightarrow> trap + 'b" where
  "and_then r k = (case r of Inl f \<Rightarrow> Inl f | Inr x \<Rightarrow> k x)"

definition mode_lookup_symbol :: "host \<Rightarrow> ptr \<Rightarrow> byte list \<Rightarrow> trap + ptr" where
  "mode_lookup_symbol h module' nm =
     (if module' = 0 then Inl null_module_read else Inr (pe_lookup_symbol h module' nm))"

definition mode_lookup_symbol_hash :: "host \<Rightarrow> ptr \<Rightarrow> 32 word \<Rightarrow> trap + ptr" where
  "mode_lookup_symbol_hash h module' hash =
     (if module' = 0 then Inl null_module_read else Inr (pe_lookup_symbol_hash h module' hash))"

text \<open>\<open>_pic(addr) = _pc() - &_pc + addr\<close> in \<open>uintptr_t\<close> arithmetic of the 32-bit target;
  \<open>_(x)\<close> is \<open>_pic(x)\<close> on x86 and \<open>x\<close> otherwise.\<close>

definition pic :: "host \<Rightarrow> ptr \<Rightarrow> ptr" where
  "pic h addr =
     unat ((of_nat (pc_runtime h) :: 32 word) - of_nat (pc_compiled h) + of_nat addr)"

definition live :: "config \<Rightarrow> host \<Rightarrow> ptr \<Rightarrow> ptr" where
  "live cfg h x = (if M_IX86 cfg then pic h x else x)"

text \<open>\<open>mode_traits<user_mode>::find_module\<close> and \<open>mode_traits<kernel_mode>::find_module\<close>,
  by name and by hash, and the members of \<open>dispatch_table_impl<0, Mode>\<close> that dispatch to
  them or call through the header.\<close>

definition user_find_module :: "config \<Rightarrow> host \<Rightarrow> byte list \<Rightarrow> ptr" where
  "user_find_module cfg h nm =
     (if \<not> SCFW_ENABLE_FULL_MODULE_SEARCH cfg \<and> stricmp nm (lit ''ntdll.dll'') = 0
        then find_module_ntdll h
      else if \<not> SCFW_ENABLE_FULL_MODULE_SEARCH cfg \<and> stricmp nm (lit ''kernel32.dll'') = 0
        then find_module_kernel32 h
      else um_find_module h nm)"

definition user_find_module_hash :: "config \<Rightarrow> host \<Rightarrow> 32 word \<Rightarrow> ptr" where
  "user_find_module_hash cfg h hash =
     (if \<not> SCFW_ENABLE_FULL_MODULE_SEARCH cfg \<and> hash = fnv1a_hash (lit ''ntdll.dll'')
        then find_module_ntdll h
      else if \<not> SCFW_ENABLE_FULL_MODULE_SEARCH cfg \<and> hash = fnv1a_hash (lit ''kernel32.dll'')
        then find_module_kernel32 h
      else um_find_module_hash h hash)"

definition kernel_find_module :: "host \<Rightarrow> ptr \<Rightarrow> byte list \<Rightarrow> trap + ptr" where
  "kernel_find_module h kbase nm =
     (if stricmp nm (lit ''ntoskrnl.exe'') = 0 then Inr kbase
      else if kbase = 0 then Inl null_module_read
      else Inr (km_find_module h kbase nm))"

definition kernel_find_module_hash :: "host \<Rightarrow> ptr \<Rightarrow> 32 word \<Rightarrow> trap + ptr" where
  "kernel_find_module_hash h kbase hash =
     (if hash = fnv1a_hash (lit ''ntoskrnl.exe'') then Inr kbase
      else if kbase = 0 then Inl null_module_read
      else Inr (km_find_module_hash h kbase hash))"

definition find_module :: "config \<Rightarrow> host \<Rightarrow> dispatch_table \<Rightarrow> byte list \<Rightarrow> trap + ptr" where
  "find_module cfg h t nm =
     (case SCFW_MODE cfg of
        user_mode \<Rightarrow> Inr (user_find_module cfg h nm)
      | kernel_mode \<Rightarrow> kernel_find_module h (kernel_base t) nm)"

definition find_module_hash :: "config \<Rightarrow> host \<Rightarrow> dispatch_table \<Rightarrow> 32 word \<Rightarrow> trap + ptr" where
  "find_module_hash cfg h t hash =
     (case SCFW_MODE cfg of
        user_mode \<Rightarrow> Inr (user_find_module_hash cfg h hash)
      | kernel_mode \<Rightarrow> kernel_find_module_hash h (kernel_base t) hash)"

definition load_module :: "host \<Rightarrow> dispatch_table \<Rightarrow> byte list \<Rightarrow> trap + ptr" where
  "load_module h t nm =
     (if dt_load_module t = 0 then Inl null_function_call
      else Inr (call_load_module h (dt_load_module t) nm))"

definition member_lookup_symbol ::
  "host \<Rightarrow> dispatch_table \<Rightarrow> ptr \<Rightarrow> byte list \<Rightarrow> trap + ptr" where
  "member_lookup_symbol h t m nm =
     (if dt_lookup_symbol t = 0 then Inl null_function_call
      else Inr (call_lookup_symbol h (dt_lookup_symbol t) m nm))"

subsection \<open>The base of the chain: \<open>dispatch_table_impl<0, Mode>::init\<close>\<close>

text \<open>
  \<open>SCFW__SYMBOL(x)\<close> passes the name or its hash to \<open>mode::lookup_symbol\<close>;
  \<open>SCFW__MODULE(x)\<close> does the same for \<open>mode::find_module\<close>, and \<open>find_kernel32\<close> is
  \<open>mode::find_module(SCFW__MODULE("kernel32.dll"))\<close>. The user-mode \<open>init\<close> makes that call
  when one of the four header features is enabled (\<open>header_enabled\<close>), then one lookup in
  \<open>kernel32\<close> for every enabled feature, in the order of the source, each stored unchecked;
  the kernel-mode \<open>init\<close> looks \<open>ExFreePool\<close> up in \<open>argument1\<close>. Both end in \<open>return 0\<close>.
\<close>

definition init_symbol :: "config \<Rightarrow> host \<Rightarrow> ptr \<Rightarrow> string \<Rightarrow> trap + ptr" where
  "init_symbol cfg h m x =
     (if SCFW_ENABLE_INIT_SYMBOLS_BY_STRING cfg then mode_lookup_symbol h m (lit x)
      else mode_lookup_symbol_hash h m (fnv1a_hash (lit x)))"

definition header_enabled :: "config \<Rightarrow> bool" where
  "header_enabled cfg \<longleftrightarrow>
     SCFW_ENABLE_CLEANUP cfg \<or> SCFW_ENABLE_LOOKUP_SYMBOL cfg \<or>
     SCFW_ENABLE_LOAD_MODULE cfg \<or> SCFW_ENABLE_UNLOAD_MODULE cfg"

definition find_kernel32 :: "config \<Rightarrow> host \<Rightarrow> ptr" where
  "find_kernel32 cfg h =
     (if SCFW_ENABLE_INIT_MODULES_BY_STRING cfg
      then user_find_module cfg h (lit ''kernel32.dll'')
      else user_find_module_hash cfg h (fnv1a_hash (lit ''kernel32.dll'')))"

definition init0_user ::
  "config \<Rightarrow> host \<Rightarrow> ptr \<Rightarrow> ptr \<Rightarrow> dispatch_table \<Rightarrow> trap + (int \<times> dispatch_table)" where
  "init0_user cfg h argument1 argument2 t =
     (let t = (if SCFW_ENABLE_CLEANUP cfg
               then t\<lparr>dt_cleanup := live cfg h (cleanup_usermode h)\<rparr> else t);
          kernel32 = find_kernel32 cfg h
      in
      and_then (if SCFW_ENABLE_CLEANUP cfg
                then and_then (init_symbol cfg h kernel32 ''VirtualFree'')
                       (\<lambda>p. Inr (t\<lparr>dt_free := p\<rparr>))
                else Inr t) (\<lambda>t.
      and_then (if SCFW_ENABLE_LOOKUP_SYMBOL cfg
                then and_then (init_symbol cfg h kernel32 ''GetProcAddress'')
                       (\<lambda>p. Inr (t\<lparr>dt_lookup_symbol := p\<rparr>))
                else Inr t) (\<lambda>t.
      and_then (if SCFW_ENABLE_LOAD_MODULE cfg
                then and_then (init_symbol cfg h kernel32 ''LoadLibraryA'')
                       (\<lambda>p. Inr (t\<lparr>dt_load_module := p\<rparr>))
                else Inr t) (\<lambda>t.
      and_then (if SCFW_ENABLE_UNLOAD_MODULE cfg
                then and_then (init_symbol cfg h kernel32 ''FreeLibrary'')
                       (\<lambda>p. Inr (t\<lparr>dt_unload_module := p\<rparr>))
                else Inr t) (\<lambda>t.
      Inr (0, t))))))"

definition init0_kernel ::
  "config \<Rightarrow> host \<Rightarrow> ptr \<Rightarrow> ptr \<Rightarrow> dispatch_table \<Rightarrow> trap + (int \<times> dispatch_table)" where
  "init0_kernel cfg h argument1 argument2 t =
     (let kbase = argument1
      in
      and_then (if SCFW_ENABLE_CLEANUP cfg
                then and_then (init_symbol cfg h kbase ''ExFreePool'')
                       (\<lambda>p. Inr (t\<lparr>dt_cleanup := live cfg h (cleanup_kernelmode h),
                                    dt_free := p\<rparr>))
                else Inr t) (\<lambda>t.
      Inr (0, t\<lparr>kernel_base := kbase\<rparr>)))"

definition init0 ::
  "config \<Rightarrow> host \<Rightarrow> ptr \<Rightarrow> ptr \<Rightarrow> dispatch_table \<Rightarrow> trap + (int \<times> dispatch_table)" where
  "init0 cfg h argument1 argument2 t =
     (case SCFW_MODE cfg of
        user_mode \<Rightarrow> init0_user cfg h argument1 argument2 t
      | kernel_mode \<Rightarrow> init0_kernel cfg h argument1 argument2 t)"

subsection \<open>Entries of the chain\<close>

text \<open>
  \<open>lookup_flags<Id, Mode, EntryKind>::get()\<close>: \<open>0\<close> at \<open>Id == 0\<close>; the flags of entry
  \<open>Id\<close> when it is of the kind asked for; otherwise the answer for \<open>Id - 1\<close>.
  \<open>current_module()\<close> as seen from \<open>dispatch_table_impl<n>\<close>: the \<open>module_\<close> of the nearest
  module entry at or below \<open>n\<close>, the null pointer at the base.
\<close>

fun lookup_flags :: "import_entry list \<Rightarrow> nat \<Rightarrow> entry_kind \<Rightarrow> 32 word" where
  "lookup_flags es 0 EntryKind = 0"
| "lookup_flags es (Suc n) EntryKind =
     (if entry_type (es ! n) \<noteq> EntryKind then lookup_flags es n EntryKind
      else flags (es ! n))"

fun current_module :: "import_entry list \<Rightarrow> dispatch_table \<Rightarrow> nat \<Rightarrow> ptr" where
  "current_module es t 0 = 0"
| "current_module es t (Suc n) =
     (if entry_type (es ! n) = module then slots t ! n else current_module es t n)"

text \<open>The resolution of a module entry (\<open>SCFW_IMPORT_MODULE_IMPL::init\<close>).\<close>

definition resolve_module :: "config \<Rightarrow> host \<Rightarrow> dispatch_table \<Rightarrow> import_entry \<Rightarrow> trap + ptr" where
  "resolve_module cfg h t e =
     (if flags e AND SCFW_FLAG_DYNAMIC_LOAD \<noteq> 0 then load_module h t (name e)
      else if flags e AND SCFW_FLAG_STRING_MODULE \<noteq> 0 then find_module cfg h t (name e)
      else find_module_hash cfg h t (fnv1a_hash (name e)))"

text \<open>
  The resolution of a symbol entry (\<open>SCFW_IMPORT_SYMBOL::init\<close>), in two steps: the
  \<open>if constexpr\<close> cascade that picks one of three strategies from the constants
  \<open>dynamic_resolve\<close> and \<open>string_symbol\<close>, and the call each strategy makes.
\<close>

datatype strategy = by_lookup_symbol_pointer | by_export_strcmp | by_export_hash

definition symbol_strategy :: "import_entry list \<Rightarrow> nat \<Rightarrow> strategy" where
  "symbol_strategy es Id' =
     (let dynamic_resolve =
            (flags (es ! Id') AND SCFW_FLAG_DYNAMIC_RESOLVE \<noteq> 0 \<or>
             lookup_flags es Id' module AND SCFW_FLAG_DYNAMIC_RESOLVE \<noteq> 0)
      in if dynamic_resolve then by_lookup_symbol_pointer
         else
           (let string_symbol =
                  (flags (es ! Id') AND SCFW_FLAG_STRING_SYMBOL \<noteq> 0 \<or>
                   lookup_flags es Id' module AND SCFW_FLAG_STRING_SYMBOL \<noteq> 0)
            in if string_symbol then by_export_strcmp else by_export_hash))"

definition resolve_symbol ::
  "config \<Rightarrow> host \<Rightarrow> import_entry list \<Rightarrow> dispatch_table \<Rightarrow> nat \<Rightarrow> trap + ptr" where
  "resolve_symbol cfg h es t Id' =
     (case symbol_strategy es Id' of
        by_lookup_symbol_pointer \<Rightarrow>
          member_lookup_symbol h t (current_module es t Id') (name (es ! Id'))
      | by_export_strcmp \<Rightarrow> mode_lookup_symbol h (current_module es t Id') (name (es ! Id'))
      | by_export_hash \<Rightarrow>
          mode_lookup_symbol_hash h (current_module es t Id') (fnv1a_hash (name (es ! Id'))))"

text \<open>
  \<open>dispatch_table_impl<N>::init\<close>: the init of the entry below first, its error returned as
  it is; then the entry's own resolution, stored in its slot; the result is \<open>Id + 1\<close> when the
  stored pointer is null and \<open>0\<close> otherwise.
\<close>

definition resolve_entry ::
  "config \<Rightarrow> host \<Rightarrow> import_entry list \<Rightarrow> dispatch_table \<Rightarrow> nat \<Rightarrow> trap + ptr" where
  "resolve_entry cfg h es t Id' =
     (case entry_type (es ! Id') of
        module \<Rightarrow> resolve_module cfg h t (es ! Id')
      | symbol \<Rightarrow> resolve_symbol cfg h es t Id')"

fun init :: "config \<Rightarrow> host \<Rightarrow> import_entry list \<Rightarrow> ptr \<Rightarrow> ptr \<Rightarrow> nat \<Rightarrow> dispatch_table
    \<Rightarrow> trap + (int \<times> dispatch_table)" where
  "init cfg h es argument1 argument2 0 t = init0 cfg h argument1 argument2 t"
| "init cfg h es argument1 argument2 (Suc Id') t =
     and_then (init cfg h es argument1 argument2 Id' t) (\<lambda>(err, t).
       if err \<noteq> 0 then Inr (err, t)
       else
         and_then (resolve_entry cfg h es t Id') (\<lambda>p.
           (let t = t\<lparr>slots := (slots t)[Id' := p]\<rparr>
            in if p = 0 then Inr (int Id' + 1, t) else Inr (0, t))))"


subsection \<open>\<open>destroy\<close> and the generated \<open>_entry\<close>\<close>

text \<open>
  The calls \<open>_entry\<close> makes are recorded in a trace. \<open>destroy\<close> runs from the last entry
  down to the base; a module entry with \<open>DYNAMIC_LOAD\<close> and \<open>DYNAMIC_UNLOAD\<close> and a non-null
  handle calls \<open>unload_module_\<close> on it, every other entry only delegates. Its result is the
  list of the unload calls made, and the fault that ended it, if one did.
\<close>

datatype event =
    call_init ptr ptr ptr
  | call_entry ptr ptr
  | call_destroy ptr ptr ptr
  | call_unload_module ptr ptr

definition unload_module :: "dispatch_table \<Rightarrow> ptr \<Rightarrow> trap + event" where
  "unload_module t module' =
     (if dt_unload_module t = 0 then Inl null_function_call
      else Inr (call_unload_module (dt_unload_module t) module'))"

fun destroy :: "import_entry list \<Rightarrow> nat \<Rightarrow> dispatch_table \<Rightarrow> event list \<times> trap option" where
  "destroy es 0 t = ([], None)"
| "destroy es (Suc Id') t =
     (case entry_type (es ! Id') of
        module \<Rightarrow>
          (if flags (es ! Id') AND SCFW_FLAG_DYNAMIC_LOAD \<noteq> 0 \<and>
              flags (es ! Id') AND SCFW_FLAG_DYNAMIC_UNLOAD \<noteq> 0
           then (if slots t ! Id' \<noteq> 0
                 then (case unload_module t (slots t ! Id') of
                         Inl f \<Rightarrow> ([], Some f)
                       | Inr e \<Rightarrow>
                           (let (unloads, stop) = destroy es Id' t in (e # unloads, stop)))
                 else destroy es Id' t)
           else destroy es Id' t)
      | symbol \<Rightarrow> destroy es Id' t)"

text \<open>
  \<open>_entry\<close> (here \<open>entry_shim\<close>): the tables in memory by address, and the trace. The user
  body \<open>entry\<close> is any function on the memory of tables. The result is the machine when
  \<open>_entry\<close> returns, with \<open>None\<close>, or the machine at the fault that ended it, with the fault.
\<close>

record machine =
  tables :: "ptr \<Rightarrow> dispatch_table"
  trace :: "event list"

definition entry_shim ::
  "config \<Rightarrow> host \<Rightarrow> import_entry list \<Rightarrow> ptr \<Rightarrow>
   (ptr \<Rightarrow> ptr \<Rightarrow> (ptr \<Rightarrow> dispatch_table) \<Rightarrow> (ptr \<Rightarrow> dispatch_table)) \<Rightarrow>
   ptr \<Rightarrow> ptr \<Rightarrow> machine \<Rightarrow> machine \<times> trap option" where
  "entry_shim cfg h es dispatch_table_addr entry argument1 argument2 m =
     (let dt = live cfg h dispatch_table_addr;
          m = m\<lparr>trace := trace m @ [call_init dt argument1 argument2]\<rparr>
      in case init cfg h es argument1 argument2 (length es) (tables m dt) of
           Inl f \<Rightarrow> (m, Some f)
         | Inr (err, t) \<Rightarrow>
             (let m = m\<lparr>tables := (tables m)(dt := t)\<rparr>
              in if err \<noteq> 0 then (m, None)
                 else
                   (let m = m\<lparr>tables := entry argument1 argument2 (tables m),
                              trace := trace m @ [call_entry argument1 argument2]\<rparr>;
                        (unloads, stop) = destroy es (length es) (tables m dt);
                        m = m\<lparr>trace := trace m @ [call_destroy dt argument1 argument2] @ unloads\<rparr>
                    in (m, stop))))"

definition is_unload :: "event \<Rightarrow> bool" where
  "is_unload e = (case e of call_unload_module f p \<Rightarrow> True | _ \<Rightarrow> False)"


subsection \<open>Predicates and data the theorems are stated with\<close>

text \<open>Two tables with the same header and platform state.\<close>

definition same_header :: "dispatch_table \<Rightarrow> dispatch_table \<Rightarrow> bool" where
  "same_header t t' \<longleftrightarrow>
     dt_cleanup t = dt_cleanup t' \<and> dt_free t = dt_free t' \<and>
     dt_load_module t = dt_load_module t' \<and> dt_unload_module t = dt_unload_module t' \<and>
     dt_lookup_symbol t = dt_lookup_symbol t' \<and> kernel_base t = kernel_base t'"

text \<open>
  \<open>reached N err\<close> is the number of entries resolved when \<open>init\<close> of a chain of \<open>N\<close>
  entries returns \<open>err\<close>; \<open>init_post\<close> is the state of the table then.
\<close>

definition reached :: "nat \<Rightarrow> int \<Rightarrow> nat" where
  "reached N err = (if err = 0 then N else nat err - 1)"

definition init_post ::
  "config \<Rightarrow> host \<Rightarrow> import_entry list \<Rightarrow> nat \<Rightarrow> int \<Rightarrow> dispatch_table \<Rightarrow> bool" where
  "init_post cfg h es N err t \<longleftrightarrow>
     length (slots t) = length es \<and>
     (err = 0 \<or> 1 \<le> err \<and> err \<le> int N \<and> resolve_entry cfg h es t (nat err - 1) = Inr 0) \<and>
     (\<forall>i < reached N err. slots t ! i \<noteq> 0) \<and>
     (\<forall>i < reached N err. resolve_entry cfg h es t i = Inr (slots t ! i)) \<and>
     (\<forall>i. reached N err \<le> i \<and> i < length es \<longrightarrow> slots t ! i = 0)"

text \<open>
  The inputs on which \<open>init\<close> neither reads through a null module base nor calls through a
  null header field. In the base \<open>init\<close> (\<open>base_returns\<close>): in user mode \<open>kernel32\<close> is
  found, or no header feature is enabled and nothing is looked up in it; in kernel mode
  \<open>argument1\<close> is not null, or \<open>SCFW_ENABLE_CLEANUP\<close> is off. In the chain: the kernel base is
  not null; the first declared entry is a module (\<open>module_first\<close>), so that every symbol entry
  has a module entry before it; and in the table \<open>t\<close> the base \<open>init\<close> leaves
  (\<open>header_ready\<close>), \<open>load_module_\<close> is not null when some module is declared
  \<open>DYNAMIC_LOAD\<close>, and \<open>lookup_symbol_\<close> is not null when some symbol resolves through it.
\<close>

definition base_returns :: "config \<Rightarrow> host \<Rightarrow> ptr \<Rightarrow> bool" where
  "base_returns cfg h argument1 \<longleftrightarrow>
     (case SCFW_MODE cfg of
        user_mode \<Rightarrow> header_enabled cfg \<longrightarrow> find_kernel32 cfg h \<noteq> 0
      | kernel_mode \<Rightarrow> SCFW_ENABLE_CLEANUP cfg \<longrightarrow> argument1 \<noteq> 0)"

definition module_first :: "import_entry list \<Rightarrow> bool" where
  "module_first es \<longleftrightarrow> es = [] \<or> entry_type (es ! 0) = module"

definition needs_load_module :: "import_entry list \<Rightarrow> bool" where
  "needs_load_module es \<longleftrightarrow>
     list_ex (\<lambda>e. entry_type e = module \<and> flags e AND SCFW_FLAG_DYNAMIC_LOAD \<noteq> 0) es"

definition needs_lookup_symbol :: "import_entry list \<Rightarrow> bool" where
  "needs_lookup_symbol es \<longleftrightarrow>
     list_ex (\<lambda>i. entry_type (es ! i) = symbol \<and>
                  symbol_strategy es i = by_lookup_symbol_pointer) [0..<length es]"

definition header_ready :: "import_entry list \<Rightarrow> dispatch_table \<Rightarrow> bool" where
  "header_ready es t \<longleftrightarrow>
     (needs_load_module es \<longrightarrow> dt_load_module t \<noteq> 0) \<and>
     (needs_lookup_symbol es \<longrightarrow> dt_lookup_symbol t \<noteq> 0)"

text \<open>
  The specification's effective flags of a symbol (its own flags, or-ed with the
  \<open>DYNAMIC_RESOLVE\<close> and \<open>STRING_SYMBOL\<close> bits of the parent module), the strategy they
  select, and the nearest module entry \<open>j\<close> preceding the symbol entry \<open>es ! Id'\<close>.
\<close>

definition effective_flags :: "32 word \<Rightarrow> 32 word \<Rightarrow> 32 word" where
  "effective_flags own parent =
     own OR (parent AND (SCFW_FLAG_DYNAMIC_RESOLVE OR SCFW_FLAG_STRING_SYMBOL))"

definition strategy_of :: "32 word \<Rightarrow> strategy" where
  "strategy_of eff =
     (if eff AND SCFW_FLAG_DYNAMIC_RESOLVE \<noteq> 0 then by_lookup_symbol_pointer
      else if eff AND SCFW_FLAG_STRING_SYMBOL \<noteq> 0 then by_export_strcmp
      else by_export_hash)"

definition nearest_module :: "import_entry list \<Rightarrow> nat \<Rightarrow> nat \<Rightarrow> bool" where
  "nearest_module es Id' j \<longleftrightarrow>
     j < Id' \<and> entry_type (es ! j) = module \<and>
     (\<forall>i. j < i \<and> i < Id' \<longrightarrow> entry_type (es ! i) = symbol)"

text \<open>
  A host that answers null to everything; a host in which \<open>kernel32.dll\<close> is at \<open>0x1000\<close> and
  exports \<open>Sleep\<close> at \<open>0x1234\<close> and nothing else; three option sets; and declared import
  lists: \<open>kernel32.dll\<close> with \<open>Sleep\<close> (and with a third symbol \<open>Nope\<close> that the module does
  not export).
\<close>

definition null_host :: host where
  "null_host =
     \<lparr> pc_runtime = 0, pc_compiled = 0, cleanup_usermode = 0, cleanup_kernelmode = 0,
       find_module_ntdll = 0, find_module_kernel32 = 0,
       um_find_module = (\<lambda>nm. 0), um_find_module_hash = (\<lambda>x. 0),
       km_find_module = (\<lambda>k nm. 0), km_find_module_hash = (\<lambda>k x. 0),
       pe_lookup_symbol = (\<lambda>m nm. 0), pe_lookup_symbol_hash = (\<lambda>m x. 0),
       call_load_module = (\<lambda>f nm. 0), call_lookup_symbol = (\<lambda>f m nm. 0) \<rparr>"

definition demo_host :: host where
  "demo_host = null_host
     \<lparr> find_module_kernel32 := 0x1000,
       pe_lookup_symbol := (\<lambda>m nm. if m = 0x1000 \<and> nm = lit ''Sleep'' then 0x1234 else 0),
       pe_lookup_symbol_hash :=
         (\<lambda>m x. if m = 0x1000 \<and> x = fnv1a_hash (lit ''Sleep'') then 0x1234 else 0),
       call_lookup_symbol :=
         (\<lambda>f m nm. if m = 0x1000 \<and> nm = lit ''Sleep'' then 0x1234 else 0) \<rparr>"

definition demo_config :: config where
  "demo_config =
     \<lparr> SCFW_MODE = user_mode, SCFW_ENABLE_CLEANUP = False, SCFW_ENABLE_LOAD_MODULE = False,
       SCFW_ENABLE_UNLOAD_MODULE = False, SCFW_ENABLE_LOOKUP_SYMBOL = False,
       SCFW_ENABLE_FULL_MODULE_SEARCH = False, SCFW_ENABLE_INIT_MODULES_BY_STRING = False,
       SCFW_ENABLE_INIT_SYMBOLS_BY_STRING = False, M_IX86 = False \<rparr>"

definition zero_table :: "nat \<Rightarrow> dispatch_table" where
  "zero_table n =
     \<lparr> dt_cleanup = 0, dt_free = 0, dt_load_module = 0, dt_unload_module = 0,
       dt_lookup_symbol = 0, kernel_base = 0, slots = replicate n 0 \<rparr>"

definition demo_imports :: "import_entry list" where
  "demo_imports =
     [\<lparr> entry_type = module, name = lit ''kernel32.dll'', flags = 0 \<rparr>,
      \<lparr> entry_type = symbol, name = lit ''Sleep'', flags = 0 \<rparr>,
      \<lparr> entry_type = symbol, name = lit ''Nope'', flags = 0 \<rparr>]"

definition demo_imports_ok :: "import_entry list" where
  "demo_imports_ok =
     [\<lparr> entry_type = module, name = lit ''kernel32.dll'', flags = 0 \<rparr>,
      \<lparr> entry_type = symbol, name = lit ''Sleep'', flags = 0 \<rparr>]"

definition demo_table :: dispatch_table where
  "demo_table = (zero_table 3)\<lparr>slots := [0x1000, 0x1234, 0]\<rparr>"

definition demo_machine :: "nat \<Rightarrow> machine" where
  "demo_machine n = \<lparr> tables = (\<lambda>a. zero_table n), trace = [] \<rparr>"

definition demo_imports_flags :: "import_entry list" where
  "demo_imports_flags =
     [\<lparr> entry_type = module, name = lit ''user32.dll'', flags = SCFW_FLAG_DYNAMIC_RESOLVE \<rparr>,
      \<lparr> entry_type = symbol, name = lit ''MessageBoxA'', flags = 0 \<rparr>,
      \<lparr> entry_type = module, name = lit ''kernel32.dll'', flags = 0 \<rparr>,
      \<lparr> entry_type = symbol, name = lit ''Sleep'', flags = SCFW_FLAG_STRING_SYMBOL \<rparr>,
      \<lparr> entry_type = symbol, name = lit ''Beep'', flags = 0 \<rparr>]"

definition all_features :: config where
  "all_features =
     \<lparr> SCFW_MODE = user_mode, SCFW_ENABLE_CLEANUP = True, SCFW_ENABLE_LOAD_MODULE = True,
       SCFW_ENABLE_UNLOAD_MODULE = True, SCFW_ENABLE_LOOKUP_SYMBOL = True,
       SCFW_ENABLE_FULL_MODULE_SEARCH = False, SCFW_ENABLE_INIT_MODULES_BY_STRING = False,
       SCFW_ENABLE_INIT_SYMBOLS_BY_STRING = False, M_IX86 = False \<rparr>"

definition kernel_cleanup :: config where
  "kernel_cleanup =
     \<lparr> SCFW_MODE = kernel_mode, SCFW_ENABLE_CLEANUP = True, SCFW_ENABLE_LOAD_MODULE = False,
       SCFW_ENABLE_UNLOAD_MODULE = False, SCFW_ENABLE_LOOKUP_SYMBOL = False,
       SCFW_ENABLE_FULL_MODULE_SEARCH = False, SCFW_ENABLE_INIT_MODULES_BY_STRING = False,
       SCFW_ENABLE_INIT_SYMBOLS_BY_STRING = False, M_IX86 = False \<rparr>"

subsection \<open>Sequencing, and the base \<open>init\<close>\<close>

lemma and_then_Inr [simp]: "and_then (Inr x) k = k x"
  by (simp add: and_then_def)

lemma and_then_Inl [simp]: "and_then (Inl f) k = Inl f"
  by (simp add: and_then_def)

lemma and_then_eq_Inr: "and_then r k = Inr y \<longleftrightarrow> (\<exists>x. r = Inr x \<and> k x = Inr y)"
  by (cases r) simp_all

lemma and_then_eq_Inl: "and_then r k = Inl f \<longleftrightarrow> r = Inl f \<or> (\<exists>x. r = Inr x \<and> k x = Inl f)"
  by (cases r) simp_all

lemma init_symbol_null: "init_symbol cfg h 0 x = Inl null_module_read"
  by (simp add: init_symbol_def mode_lookup_symbol_def mode_lookup_symbol_hash_def)

lemma init_symbol_located:
  "m \<noteq> 0 \<Longrightarrow>
   init_symbol cfg h m x =
     Inr (if SCFW_ENABLE_INIT_SYMBOLS_BY_STRING cfg then pe_lookup_symbol h m (lit x)
          else pe_lookup_symbol_hash h m (fnv1a_hash (lit x)))"
  by (simp add: init_symbol_def mode_lookup_symbol_def mode_lookup_symbol_hash_def)

lemma init_symbol_cases:
  obtains "m = 0" and "init_symbol cfg h m x = Inl null_module_read"
  | p where "m \<noteq> 0" and "init_symbol cfg h m x = Inr p"
  using init_symbol_null [of cfg h x] init_symbol_located [of m cfg h x] by (cases "m = 0") auto

lemma init0_user_located:
  assumes "find_kernel32 cfg h \<noteq> 0"
  shows "\<exists>t'. init0_user cfg h a1 a2 t = Inr (0, t') \<and> slots t' = slots t \<and>
           kernel_base t' = kernel_base t \<and>
           (SCFW_ENABLE_CLEANUP cfg \<longrightarrow>
              init_symbol cfg h (find_kernel32 cfg h) ''VirtualFree'' = Inr (dt_free t')) \<and>
           (SCFW_ENABLE_LOOKUP_SYMBOL cfg \<longrightarrow>
              init_symbol cfg h (find_kernel32 cfg h) ''GetProcAddress'' = Inr (dt_lookup_symbol t')) \<and>
           (SCFW_ENABLE_LOAD_MODULE cfg \<longrightarrow>
              init_symbol cfg h (find_kernel32 cfg h) ''LoadLibraryA'' = Inr (dt_load_module t')) \<and>
           (SCFW_ENABLE_UNLOAD_MODULE cfg \<longrightarrow>
              init_symbol cfg h (find_kernel32 cfg h) ''FreeLibrary'' = Inr (dt_unload_module t'))"
  by (simp add: init0_user_def Let_def init_symbol_located [OF assms])

lemma init0_user_disabled:
  assumes "\<not> header_enabled cfg"
  shows "init0_user cfg h a1 a2 t = Inr (0, t)"
  using assms by (simp add: init0_user_def header_enabled_def Let_def)

lemma init0_user_null:
  assumes "header_enabled cfg" and "find_kernel32 cfg h = 0"
  shows "init0_user cfg h a1 a2 t = Inl null_module_read"
  using assms by (auto simp: init0_user_def header_enabled_def Let_def init_symbol_null)

lemma init0_kernel_located:
  assumes "SCFW_ENABLE_CLEANUP cfg \<longrightarrow> a1 \<noteq> 0"
  shows "\<exists>t'. init0_kernel cfg h a1 a2 t = Inr (0, t') \<and> slots t' = slots t \<and>
           kernel_base t' = a1 \<and>
           (SCFW_ENABLE_CLEANUP cfg \<longrightarrow> init_symbol cfg h a1 ''ExFreePool'' = Inr (dt_free t'))"
  using assms by (auto simp: init0_kernel_def Let_def init_symbol_located)

lemma init0_kernel_null:
  assumes "SCFW_ENABLE_CLEANUP cfg" and "a1 = 0"
  shows "init0_kernel cfg h a1 a2 t = Inl null_module_read"
  using assms by (simp add: init0_kernel_def Let_def init_symbol_null)

lemma init0_trap:
  "\<not> base_returns cfg h a1 \<Longrightarrow> init0 cfg h a1 a2 t = Inl null_module_read"
  by (auto simp: base_returns_def init0_def init0_user_null init0_kernel_null split: mode.splits)

lemma init0_returns:
  assumes "base_returns cfg h a1"
  shows "\<exists>t'. init0 cfg h a1 a2 t = Inr (0, t') \<and> slots t' = slots t \<and>
           (SCFW_MODE cfg = kernel_mode \<longrightarrow> kernel_base t' = a1)"
proof (cases "SCFW_MODE cfg")
  case user_mode
  show ?thesis
  proof (cases "header_enabled cfg")
    case True
    then have "find_kernel32 cfg h \<noteq> 0" using assms user_mode by (simp add: base_returns_def)
    from init0_user_located [OF this, of a1 a2 t] show ?thesis
      using user_mode by (auto simp: init0_def)
  next
    case False
    then show ?thesis using user_mode by (simp add: init0_def init0_user_disabled)
  qed
next
  case kernel_mode
  then have "SCFW_ENABLE_CLEANUP cfg \<longrightarrow> a1 \<noteq> 0" using assms by (simp add: base_returns_def)
  from init0_kernel_located [OF this, of h a2 t] show ?thesis
    using kernel_mode by (auto simp: init0_def)
qed

lemma init0_Inr:
  assumes "init0 cfg h a1 a2 t = Inr (err, t')"
  shows "err = 0" and "slots t' = slots t"
    and "SCFW_MODE cfg = kernel_mode \<Longrightarrow> kernel_base t' = a1"
proof -
  have "base_returns cfg h a1"
    using assms init0_trap [of cfg h a1 a2 t] by (cases "base_returns cfg h a1") auto
  from init0_returns [OF this, of a2 t] assms
  show "err = 0" and "slots t' = slots t"
    and "SCFW_MODE cfg = kernel_mode \<Longrightarrow> kernel_base t' = a1"
    by auto
qed

subsection \<open>The state \<open>init\<close> leaves behind\<close>

lemma current_module_cong:
  "(\<forall>k<n. slots t ! k = slots t' ! k) \<Longrightarrow> current_module es t n = current_module es t' n"
  by (induction n) simp_all

lemma resolve_entry_cong:
  assumes "same_header t t'" and "\<forall>k<n. slots t ! k = slots t' ! k"
  shows "resolve_entry cfg h es t n = resolve_entry cfg h es t' n"
  using assms current_module_cong [OF assms(2), of es]
  by (simp add: resolve_entry_def resolve_module_def resolve_symbol_def load_module_def
      member_lookup_symbol_def find_module_def find_module_hash_def same_header_def
      split: entry_kind.split strategy.split mode.split)

lemma reached_0: "reached N 0 = N"
  by (simp add: reached_def)

lemma init_post_Suc_failed:
  "init_post cfg h es N err t \<Longrightarrow> err \<noteq> 0 \<Longrightarrow> init_post cfg h es (Suc N) err t"
  by (auto simp: init_post_def reached_def)

lemma init_post_step:
  assumes post: "init_post cfg h es N 0 t1" and N: "N < length es"
    and res: "resolve_entry cfg h es t1 N = Inr p"
  defines "t \<equiv> t1\<lparr>slots := (slots t1)[N := p]\<rparr>"
  shows "init_post cfg h es (Suc N) (if p = 0 then int N + 1 else 0) t"
proof -
  have len: "length (slots t1) = length es"
    and nz: "\<forall>i<N. slots t1 ! i \<noteq> 0"
    and eq: "\<forall>i<N. resolve_entry cfg h es t1 i = Inr (slots t1 ! i)"
    and above: "\<forall>i. N \<le> i \<and> i < length es \<longrightarrow> slots t1 ! i = 0"
    using post unfolding init_post_def reached_0 by blast+
  have hdr: "same_header t t1" by (simp add: same_header_def t_def)
  have same: "resolve_entry cfg h es t i = resolve_entry cfg h es t1 i" if "i \<le> N" for i
    using that by (intro resolve_entry_cong hdr) (simp add: t_def)
  have sl: "slots t ! i = (if i = N then p else slots t1 ! i)" if "i < length es" for i
    using that len by (simp add: t_def nth_list_update)
  have lt: "length (slots t) = length es" using len by (simp add: t_def)
  have A: "\<forall>i<N. slots t ! i \<noteq> 0"
    using sl nz N by simp
  have A': "\<forall>i<N. resolve_entry cfg h es t i = Inr (slots t ! i)"
    using sl eq same N by simp
  have B: "slots t ! N = p" "resolve_entry cfg h es t N = Inr p"
    using sl [of N] same [of N] N res by simp_all
  have C: "\<forall>i. Suc N \<le> i \<and> i < length es \<longrightarrow> slots t ! i = 0"
    using sl above by simp
  show ?thesis
  proof (cases "p = 0")
    case True
    have r: "reached (Suc N) (int N + 1) = N" by (simp add: reached_def)
    have k: "nat (int N + 1) - Suc 0 = N" by simp
    have "\<forall>i. N \<le> i \<and> i < length es \<longrightarrow> slots t ! i = 0"
      using C B(1) True by (metis Suc_leI le_neq_implies_less)
    then show ?thesis
      unfolding init_post_def using lt True A A' B(2) by (simp add: r k)
  next
    case False
    have r: "reached (Suc N) 0 = Suc N" by (simp add: reached_def)
    have "\<forall>i<Suc N. slots t ! i \<noteq> 0"
      using A B False by (metis less_Suc_eq)
    moreover have "\<forall>i<Suc N. resolve_entry cfg h es t i = Inr (slots t ! i)"
      using A' B by (metis less_Suc_eq)
    ultimately show ?thesis
      unfolding init_post_def using lt False C by (simp add: r)
  qed
qed

text \<open>One step of the chain, read backwards: what a returning \<open>init\<close> of \<open>Suc N\<close> entries
  says about the \<open>init\<close> of \<open>N\<close> entries and the resolution of entry \<open>N\<close>.\<close>

lemma init_Suc_Inr:
  assumes "init cfg h es a1 a2 (Suc N) t0 = Inr (err, t)"
  obtains e1 where "e1 \<noteq> 0" and "init cfg h es a1 a2 N t0 = Inr (e1, t)" and "err = e1"
  | t1 p where "init cfg h es a1 a2 N t0 = Inr (0, t1)"
      and "resolve_entry cfg h es t1 N = Inr p"
      and "t = t1\<lparr>slots := (slots t1)[N := p]\<rparr>"
      and "err = (if p = 0 then int N + 1 else 0)"
proof -
  from assms obtain e1 t1 where i1: "init cfg h es a1 a2 N t0 = Inr (e1, t1)"
    and rest: "(if e1 \<noteq> 0 then Inr (e1, t1)
         else and_then (resolve_entry cfg h es t1 N) (\<lambda>p.
           (let t = t1\<lparr>slots := (slots t1)[N := p]\<rparr>
            in if p = 0 then Inr (int N + 1, t) else Inr (0, t)))) = Inr (err, t)"
    by (auto simp: and_then_eq_Inr)
  show thesis
  proof (cases "e1 = 0")
    case False
    then show thesis using that(1) [of e1] i1 rest by simp
  next
    case True
    show thesis
    proof (cases "resolve_entry cfg h es t1 N")
      case (Inl f)
      then show thesis using rest True by simp
    next
      case (Inr p)
      then have "err = (if p = 0 then int N + 1 else 0)"
        and "t = t1\<lparr>slots := (slots t1)[N := p]\<rparr>"
        using rest True by (simp_all add: Let_def split: if_splits)
      then show thesis using that(2) [of t1 p] i1 True Inr by simp
    qed
  qed
qed

lemma init_inv:
  assumes "slots t0 = replicate (length es) 0" and "N \<le> length es"
    and "init cfg h es a1 a2 N t0 = Inr (err, t)"
  shows "init_post cfg h es N err t"
  using assms(2,3)
proof (induction N arbitrary: err t)
  case 0
  then have "err = 0" "slots t = slots t0"
    using init0_Inr(1,2) [of cfg h a1 a2 t0 err t] by simp_all
  then show ?case using assms(1) by (simp add: init_post_def reached_def)
next
  case (Suc N)
  from Suc.prems(2) show ?case
  proof (cases rule: init_Suc_Inr)
    case (1 e1)
    then have "init_post cfg h es N err t" using Suc.IH [of e1 t] Suc.prems(1) by simp
    then show ?thesis using 1 by (simp add: init_post_Suc_failed)
  next
    case (2 t1 p)
    have N: "N < length es" using Suc.prems by simp
    have "init_post cfg h es N 0 t1" using Suc.IH [OF _ 2(1)] N by simp
    from init_post_step [OF this N 2(2)] show ?thesis using 2(3,4) by simp
  qed
qed

lemma init_header:
  assumes "init cfg h es a1 a2 N t0 = Inr (err, t)"
  shows "\<exists>e0 tb. init0 cfg h a1 a2 t0 = Inr (e0, tb) \<and> same_header t tb"
  using assms
proof (induction N arbitrary: err t)
  case 0
  then show ?case by (simp add: same_header_def)
next
  case (Suc N)
  from Suc.prems show ?case
  proof (cases rule: init_Suc_Inr)
    case (1 e1)
    then show ?thesis using Suc.IH [of e1 t] by blast
  next
    case (2 t1 p)
    from Suc.IH [OF 2(1)] obtain e0 tb
      where "init0 cfg h a1 a2 t0 = Inr (e0, tb)" and "same_header t1 tb" by blast
    then show ?thesis using 2(3) by (auto simp: same_header_def)
  qed
qed

lemma init_err_range:
  assumes "init cfg h es a1 a2 N t0 = Inr (err, t)"
  shows "err = 0 \<or> (1 \<le> err \<and> err \<le> int N)"
  using assms
proof (induction N arbitrary: err t)
  case 0
  then show ?case using init0_Inr(1) [of cfg h a1 a2 t0 err t] by simp
next
  case (Suc N)
  from Suc.prems show ?case
  proof (cases rule: init_Suc_Inr)
    case (1 e1)
    then show ?thesis using Suc.IH [of e1 t] by auto
  next
    case (2 t1 p)
    then show ?thesis by simp
  qed
qed

text \<open>When every lookup has a module base to read and every call through the header a
  function to call, \<open>init\<close> returns.\<close>

lemma current_module_slot:
  assumes "module_first es" and "0 < n" and "n \<le> length es"
  shows "\<exists>j<n. current_module es t n = slots t ! j"
  using assms(2,3)
proof (induction n)
  case 0
  then show ?case by simp
next
  case (Suc n)
  show ?case
  proof (cases "entry_type (es ! n) = module")
    case True
    then show ?thesis by auto
  next
    case False
    moreover have "es \<noteq> []" using Suc.prems by auto
    then have "entry_type (es ! 0) = module" using assms(1) by (simp add: module_first_def)
    ultimately have "n \<noteq> 0" by metis
    then have "0 < n" and "n \<le> length es" using Suc.prems by simp_all
    then obtain j where "j < n" "current_module es t n = slots t ! j" using Suc.IH by blast
    then show ?thesis using False by (auto intro: less_SucI)
  qed
qed

lemma resolve_entry_returns:
  assumes mf: "module_first es" and n: "n < length es"
    and kb: "SCFW_MODE cfg = kernel_mode \<longrightarrow> kernel_base t \<noteq> 0"
    and hr: "header_ready es t"
    and nz: "\<forall>i<n. slots t ! i \<noteq> 0"
  shows "\<exists>p. resolve_entry cfg h es t n = Inr p"
proof (cases "entry_type (es ! n)")
  case module
  show ?thesis
  proof (cases "flags (es ! n) AND SCFW_FLAG_DYNAMIC_LOAD \<noteq> 0")
    case True
    then have "dt_load_module t \<noteq> 0"
      using hr n module unfolding header_ready_def needs_load_module_def list_ex_iff
      by (metis nth_mem)
    then show ?thesis using module True
      by (simp add: resolve_entry_def resolve_module_def load_module_def)
  next
    case False
    then show ?thesis using kb module
      by (auto simp: resolve_entry_def resolve_module_def find_module_def find_module_hash_def
          kernel_find_module_def kernel_find_module_hash_def split: mode.split)
  qed
next
  case symbol
  then have "0 < n" using mf n by (cases n) (auto simp: module_first_def)
  from current_module_slot [OF mf this, of t] n nz have cm: "current_module es t n \<noteq> 0" by auto
  show ?thesis
  proof (cases "symbol_strategy es n = by_lookup_symbol_pointer")
    case True
    then have "dt_lookup_symbol t \<noteq> 0"
      using hr n symbol unfolding header_ready_def needs_lookup_symbol_def list_ex_iff
      by (metis atLeast0LessThan lessThan_iff set_upt)
    then show ?thesis using symbol True
      by (simp add: resolve_entry_def resolve_symbol_def member_lookup_symbol_def)
  next
    case False
    then show ?thesis using symbol cm
      by (cases "symbol_strategy es n")
         (simp_all add: resolve_entry_def resolve_symbol_def mode_lookup_symbol_def
            mode_lookup_symbol_hash_def)
  qed
qed

lemma init_returns:
  assumes z: "slots t0 = replicate (length es) 0"
    and b: "init0 cfg h a1 a2 t0 = Inr (0, tb)"
    and hr: "header_ready es tb"
    and kb: "SCFW_MODE cfg = kernel_mode \<longrightarrow> a1 \<noteq> 0"
    and mf: "module_first es"
    and N: "N \<le> length es"
  shows "\<exists>err t. init cfg h es a1 a2 N t0 = Inr (err, t)"
  using N
proof (induction N)
  case 0
  then show ?case using b by auto
next
  case (Suc N)
  then obtain e1 t1 where i1: "init cfg h es a1 a2 N t0 = Inr (e1, t1)" by auto
  show ?case
  proof (cases "e1 = 0")
    case False
    then show ?thesis using i1 by simp
  next
    case True
    have post: "init_post cfg h es N 0 t1" using init_inv [OF z _ i1] Suc.prems True by simp
    then have nz: "\<forall>i<N. slots t1 ! i \<noteq> 0" by (simp add: init_post_def reached_0)
    from init_header [OF i1] b have sh: "same_header t1 tb" by auto
    have "SCFW_MODE cfg = kernel_mode \<longrightarrow> kernel_base tb = a1"
      using init0_Inr(3) [OF b] by simp
    then have k1: "SCFW_MODE cfg = kernel_mode \<longrightarrow> kernel_base t1 \<noteq> 0"
      using sh kb by (auto simp: same_header_def)
    have "header_ready es t1"
      using hr sh by (simp add: header_ready_def same_header_def)
    from resolve_entry_returns [OF mf _ k1 this nz, of h] Suc.prems
    obtain p where "resolve_entry cfg h es t1 N = Inr p" by auto
    then show ?thesis using i1 True by (simp add: Let_def)
  qed
qed

text \<open>
  C1. \<open>init\<close> of the whole chain on a table whose slots are zero-initialised returns either
  \<open>0\<close>, and then no entry's resolution is null and every slot is non-null; or the ordinal of
  the first entry whose resolution is null, and then the slots of the entries with smaller
  ordinals are non-null and the slots from that ordinal on are still zero. (The resolution of an
  entry reads the header and the slots below it only, so it is the same in the final table as
  at the moment \<open>init\<close> made it, and a resolved slot holds what its resolution returned.) And
  \<open>init\<close> does return when the base \<open>init\<close> does and leaves the header fields the chain
  calls through non-null, the kernel base is not null and the chain starts with a module.
\<close>

theorem init_first_failing_ordinal:
  assumes "slots zeroed = replicate (length es) 0"
  shows "(init cfg h es arg_one arg_two (length es) zeroed = Inr (err, t) \<longrightarrow>
            (err = 0 \<and> (\<forall>i<length es. resolve_entry cfg h es t i = Inr (slots t ! i)) \<and>
               (\<forall>i<length es. slots t ! i \<noteq> 0)) \<or>
            (1 \<le> err \<and> err \<le> int (length es) \<and>
               resolve_entry cfg h es t (nat err - 1) = Inr 0 \<and>
               (\<forall>i < nat err - 1. resolve_entry cfg h es t i = Inr (slots t ! i)) \<and>
               (\<forall>i < nat err - 1. slots t ! i \<noteq> 0) \<and>
               (\<forall>i. nat err - 1 \<le> i \<and> i < length es \<longrightarrow> slots t ! i = 0))) \<and>
         (init0 cfg h arg_one arg_two zeroed = Inr (0, tb) \<and> header_ready es tb \<and>
          (SCFW_MODE cfg = kernel_mode \<longrightarrow> arg_one \<noteq> 0) \<and> module_first es \<longrightarrow>
            (\<exists>err' t'. init cfg h es arg_one arg_two (length es) zeroed = Inr (err', t')))"
proof (intro conjI impI)
  assume i: "init cfg h es arg_one arg_two (length es) zeroed = Inr (err, t)"
  have post: "init_post cfg h es (length es) err t"
    using init_inv [OF assms _ i] by simp
  show "(err = 0 \<and> (\<forall>i<length es. resolve_entry cfg h es t i = Inr (slots t ! i)) \<and>
               (\<forall>i<length es. slots t ! i \<noteq> 0)) \<or>
            (1 \<le> err \<and> err \<le> int (length es) \<and>
               resolve_entry cfg h es t (nat err - 1) = Inr 0 \<and>
               (\<forall>i < nat err - 1. resolve_entry cfg h es t i = Inr (slots t ! i)) \<and>
               (\<forall>i < nat err - 1. slots t ! i \<noteq> 0) \<and>
               (\<forall>i. nat err - 1 \<le> i \<and> i < length es \<longrightarrow> slots t ! i = 0))"
  proof (cases "err = 0")
    case True
    then show ?thesis
      using post unfolding init_post_def reached_def by simp
  next
    case False
    then show ?thesis
      using post unfolding init_post_def reached_def by simp
  qed
next
  assume "init0 cfg h arg_one arg_two zeroed = Inr (0, tb) \<and> header_ready es tb \<and>
          (SCFW_MODE cfg = kernel_mode \<longrightarrow> arg_one \<noteq> 0) \<and> module_first es"
  then show "\<exists>err' t'. init cfg h es arg_one arg_two (length es) zeroed = Inr (err', t')"
    using init_returns [OF assms, of cfg h arg_one arg_two tb "length es"] by simp
qed


subsection \<open>Flag inheritance\<close>

lemma lookup_flags_nearest:
  "nearest_module es n j \<Longrightarrow> lookup_flags es n module = flags (es ! j)"
proof (induction n)
  case 0
  then show ?case by (simp add: nearest_module_def)
next
  case (Suc n)
  show ?case
  proof (cases "j = n")
    case True
    with Suc.prems show ?thesis by (simp add: nearest_module_def)
  next
    case False
    with Suc.prems have "j < n" "entry_type (es ! n) = symbol" "nearest_module es n j"
      by (auto simp: nearest_module_def)
    with Suc.IH show ?thesis by simp
  qed
qed

lemma current_module_nearest:
  "nearest_module es n j \<Longrightarrow> current_module es t n = slots t ! j"
proof (induction n)
  case 0
  then show ?case by (simp add: nearest_module_def)
next
  case (Suc n)
  show ?case
  proof (cases "j = n")
    case True
    with Suc.prems show ?thesis by (simp add: nearest_module_def)
  next
    case False
    with Suc.prems have "j < n" "entry_type (es ! n) = symbol" "nearest_module es n j"
      by (auto simp: nearest_module_def)
    with Suc.IH show ?thesis by simp
  qed
qed

lemma effective_dynamic_resolve:
  "effective_flags own parent AND SCFW_FLAG_DYNAMIC_RESOLVE \<noteq> 0 \<longleftrightarrow>
   own AND SCFW_FLAG_DYNAMIC_RESOLVE \<noteq> 0 \<or> parent AND SCFW_FLAG_DYNAMIC_RESOLVE \<noteq> 0"
proof -
  have "(SCFW_FLAG_DYNAMIC_RESOLVE OR SCFW_FLAG_STRING_SYMBOL) AND SCFW_FLAG_DYNAMIC_RESOLVE
        = SCFW_FLAG_DYNAMIC_RESOLVE"
    by (simp add: SCFW_FLAG_DYNAMIC_RESOLVE_def SCFW_FLAG_STRING_SYMBOL_def)
  then have "effective_flags own parent AND SCFW_FLAG_DYNAMIC_RESOLVE =
        (own AND SCFW_FLAG_DYNAMIC_RESOLVE) OR (parent AND SCFW_FLAG_DYNAMIC_RESOLVE)"
    by (simp add: effective_flags_def bit.conj_disj_distrib2 and.assoc)
  then show ?thesis by (simp add: or_eq_0_iff)
qed

lemma effective_string_symbol:
  "effective_flags own parent AND SCFW_FLAG_STRING_SYMBOL \<noteq> 0 \<longleftrightarrow>
   own AND SCFW_FLAG_STRING_SYMBOL \<noteq> 0 \<or> parent AND SCFW_FLAG_STRING_SYMBOL \<noteq> 0"
proof -
  have "(SCFW_FLAG_DYNAMIC_RESOLVE OR SCFW_FLAG_STRING_SYMBOL) AND SCFW_FLAG_STRING_SYMBOL
        = SCFW_FLAG_STRING_SYMBOL"
    by (simp add: SCFW_FLAG_DYNAMIC_RESOLVE_def SCFW_FLAG_STRING_SYMBOL_def)
  then have "effective_flags own parent AND SCFW_FLAG_STRING_SYMBOL =
        (own AND SCFW_FLAG_STRING_SYMBOL) OR (parent AND SCFW_FLAG_STRING_SYMBOL)"
    by (simp add: effective_flags_def bit.conj_disj_distrib2 and.assoc)
  then show ?thesis by (simp add: or_eq_0_iff)
qed

lemma symbol_strategy_eq:
  "symbol_strategy es n = strategy_of (effective_flags (flags (es ! n)) (lookup_flags es n module))"
  unfolding symbol_strategy_def strategy_of_def Let_def
    effective_dynamic_resolve effective_string_symbol
  by simp

text \<open>
  C3. For a symbol entry whose nearest preceding module entry is \<open>j\<close>, the strategy the code
  selects is the one the effective flags select: effective \<open>DYNAMIC_RESOLVE\<close> calls the header's
  \<open>lookup_symbol_\<close> pointer (\<open>member_lookup_symbol\<close>) with the module handle and the literal
  name; otherwise effective
  \<open>STRING_SYMBOL\<close> is the export parse with string comparison; otherwise the export parse with
  the FNV-1a hash of the name. A symbol that declares \<open>STRING_SYMBOL\<close> is never resolved by
  hash, whatever its parent's flags.
\<close>

theorem symbol_strategy_from_effective_flags:
  assumes "nearest_module es Id' j"
  defines "eff \<equiv> effective_flags (flags (es ! Id')) (flags (es ! j))"
  shows "symbol_strategy es Id' = strategy_of eff \<and>
         resolve_symbol cfg h es t Id' =
           (if eff AND SCFW_FLAG_DYNAMIC_RESOLVE \<noteq> 0
              then member_lookup_symbol h t (slots t ! j) (name (es ! Id'))
            else if eff AND SCFW_FLAG_STRING_SYMBOL \<noteq> 0
              then mode_lookup_symbol h (slots t ! j) (name (es ! Id'))
            else mode_lookup_symbol_hash h (slots t ! j) (fnv1a_hash (name (es ! Id')))) \<and>
         (flags (es ! Id') AND SCFW_FLAG_STRING_SYMBOL \<noteq> 0 \<longrightarrow>
            symbol_strategy es Id' \<noteq> by_export_hash)"
proof -
  have s: "symbol_strategy es Id' = strategy_of eff"
    using lookup_flags_nearest [OF assms(1)] by (simp add: symbol_strategy_eq eff_def)
  have "resolve_symbol cfg h es t Id' =
      (case strategy_of eff of
         by_lookup_symbol_pointer \<Rightarrow>
           member_lookup_symbol h t (slots t ! j) (name (es ! Id'))
       | by_export_strcmp \<Rightarrow> mode_lookup_symbol h (slots t ! j) (name (es ! Id'))
       | by_export_hash \<Rightarrow>
           mode_lookup_symbol_hash h (slots t ! j) (fnv1a_hash (name (es ! Id'))))"
    using current_module_nearest [OF assms(1), of t]
    by (simp add: resolve_symbol_def s split: strategy.split)
  moreover have "flags (es ! Id') AND SCFW_FLAG_STRING_SYMBOL \<noteq> 0 \<longrightarrow>
      strategy_of eff \<noteq> by_export_hash"
    by (simp add: strategy_of_def eff_def effective_string_symbol)
  ultimately show ?thesis
    using s by (simp add: strategy_of_def)
qed


subsection \<open>The protocol of \<open>_entry\<close>\<close>

lemma destroy_only_unloads:
  "list_all is_unload (fst (destroy es N t)) \<and>
   (dt_unload_module t \<noteq> 0 \<longrightarrow> snd (destroy es N t) = None) \<and>
   (snd (destroy es N t) = None \<or> snd (destroy es N t) = Some null_function_call)"
  by (induction N)
     (auto simp: is_unload_def unload_module_def split: entry_kind.split prod.split)

text \<open>
  C2. \<open>_entry\<close> calls \<open>init(argument1, argument2)\<close> on the table at the PIC-adjusted address.
  When \<open>init\<close> returns non-zero that is the only call, and \<open>_entry\<close> returns: neither the
  user body nor \<open>destroy\<close> is invoked. When it returns zero, the user body is called once on
  the initialised table and then \<open>destroy\<close> once, in that order, followed only by the unload
  calls \<open>destroy\<close> makes; \<open>_entry\<close> then returns, unless \<open>destroy\<close> calls through a null
  \<open>unload_module_\<close>. (When \<open>init\<close> does not return, it is the only call as well.)
\<close>

theorem entry_shim_protocol:
  fixes m :: machine and cfg h es dispatch_table_addr entry arg_one arg_two
  defines "dt \<equiv> live cfg h dispatch_table_addr"
  defines "r \<equiv> init cfg h es arg_one arg_two (length es) (tables m dt)"
  defines "m' \<equiv> fst (entry_shim cfg h es dispatch_table_addr entry arg_one arg_two m)"
  defines "stop \<equiv> snd (entry_shim cfg h es dispatch_table_addr entry arg_one arg_two m)"
  shows "(\<forall>f. r = Inl f \<longrightarrow>
            trace m' = trace m @ [call_init dt arg_one arg_two] \<and> stop = Some f) \<and>
         (\<forall>err t. r = Inr (err, t) \<and> err \<noteq> 0 \<longrightarrow>
            trace m' = trace m @ [call_init dt arg_one arg_two] \<and>
            tables m' = (tables m)(dt := t) \<and> stop = None) \<and>
         (\<forall>t. r = Inr (0, t) \<longrightarrow>
            tables m' = entry arg_one arg_two ((tables m)(dt := t)) \<and>
            (\<exists>unloads.
               trace m' = trace m @ [call_init dt arg_one arg_two,
                                     call_entry arg_one arg_two,
                                     call_destroy dt arg_one arg_two] @ unloads \<and>
               list_all is_unload unloads) \<and>
            (dt_unload_module (tables m' dt) \<noteq> 0 \<longrightarrow> stop = None) \<and>
            (stop = None \<or> stop = Some null_function_call))"
proof (intro conjI allI impI)
  fix f
  assume "r = Inl f"
  then show "trace m' = trace m @ [call_init dt arg_one arg_two]" and "stop = Some f"
    unfolding m'_def stop_def entry_shim_def r_def dt_def by (simp_all add: Let_def)
next
  fix err t
  assume "r = Inr (err, t) \<and> err \<noteq> 0"
  then show "trace m' = trace m @ [call_init dt arg_one arg_two]"
    and "tables m' = (tables m)(dt := t)" and "stop = None"
    unfolding m'_def stop_def entry_shim_def r_def dt_def by (simp_all add: Let_def)
next
  fix t
  assume r: "r = Inr (0, t)"
  define T where "T = entry arg_one arg_two ((tables m)(dt := t))"
  obtain unloads st where d: "destroy es (length es) (T dt) = (unloads, st)" by fastforce
  have e: "entry_shim cfg h es dispatch_table_addr entry arg_one arg_two m =
      (m\<lparr>tables := T,
         trace := trace m @ [call_init dt arg_one arg_two, call_entry arg_one arg_two,
                             call_destroy dt arg_one arg_two] @ unloads\<rparr>, st)"
    using r d unfolding entry_shim_def r_def dt_def T_def by (simp add: Let_def)
  from destroy_only_unloads [of es "length es" "T dt"] d
  have u: "list_all is_unload unloads" "dt_unload_module (T dt) \<noteq> 0 \<longrightarrow> st = None"
    "st = None \<or> st = Some null_function_call"
    by simp_all
  show "tables m' = entry arg_one arg_two ((tables m)(dt := t))"
    by (simp add: m'_def e T_def)
  show "\<exists>unloads.
               trace m' = trace m @ [call_init dt arg_one arg_two,
                                     call_entry arg_one arg_two,
                                     call_destroy dt arg_one arg_two] @ unloads \<and>
               list_all is_unload unloads"
    using u(1) by (auto simp: m'_def e)
  show "stop = None" if "dt_unload_module (tables m' dt) \<noteq> 0"
    using that u(2) by (simp add: m'_def stop_def e)
  show "stop = None \<or> stop = Some null_function_call"
    using u(3) by (simp add: stop_def e)
qed

subsection \<open>What the base \<open>init\<close> returns\<close>

text \<open>
  C10, amended. The base-level \<open>init\<close> returns exactly when it has a module base to read
  (\<open>base_returns\<close>), and then it returns \<open>0\<close>, in user mode and in kernel mode, whatever the
  host answers to the lookups: each enabled header slot is set to what its lookup in
  \<open>kernel32\<close> (in the kernel base) returned, so to null when the symbol is not found, no result
  is checked, and the per-import slots are left as they are. Otherwise the first lookup reads
  through the null base and \<open>init\<close> does not return. A non-zero result of the whole \<open>init\<close>
  is therefore always the ordinal of one of the \<open>N\<close> declared entries.
\<close>

theorem init0_returns_zero:
  "(base_returns cfg h argument1 \<longrightarrow>
      (\<exists>t'. init0 cfg h argument1 argument2 t = Inr (0, t') \<and> slots t' = slots t \<and>
         (SCFW_MODE cfg = user_mode \<longrightarrow>
            (SCFW_ENABLE_CLEANUP cfg \<longrightarrow>
               init_symbol cfg h (find_kernel32 cfg h) ''VirtualFree'' = Inr (dt_free t')) \<and>
            (SCFW_ENABLE_LOOKUP_SYMBOL cfg \<longrightarrow>
               init_symbol cfg h (find_kernel32 cfg h) ''GetProcAddress''
                 = Inr (dt_lookup_symbol t')) \<and>
            (SCFW_ENABLE_LOAD_MODULE cfg \<longrightarrow>
               init_symbol cfg h (find_kernel32 cfg h) ''LoadLibraryA''
                 = Inr (dt_load_module t')) \<and>
            (SCFW_ENABLE_UNLOAD_MODULE cfg \<longrightarrow>
               init_symbol cfg h (find_kernel32 cfg h) ''FreeLibrary''
                 = Inr (dt_unload_module t'))) \<and>
         (SCFW_MODE cfg = kernel_mode \<longrightarrow>
            (SCFW_ENABLE_CLEANUP cfg \<longrightarrow>
               init_symbol cfg h argument1 ''ExFreePool'' = Inr (dt_free t'))))) \<and>
   (\<not> base_returns cfg h argument1 \<longrightarrow>
      init0 cfg h argument1 argument2 t = Inl null_module_read) \<and>
   (init cfg h es argument1 argument2 N t = Inr (err, t1) \<and> err \<noteq> 0 \<longrightarrow>
      1 \<le> err \<and> err \<le> int N)"
proof (intro conjI impI)
  assume b: "base_returns cfg h argument1"
  show "\<exists>t'. init0 cfg h argument1 argument2 t = Inr (0, t') \<and> slots t' = slots t \<and>
         (SCFW_MODE cfg = user_mode \<longrightarrow>
            (SCFW_ENABLE_CLEANUP cfg \<longrightarrow>
               init_symbol cfg h (find_kernel32 cfg h) ''VirtualFree'' = Inr (dt_free t')) \<and>
            (SCFW_ENABLE_LOOKUP_SYMBOL cfg \<longrightarrow>
               init_symbol cfg h (find_kernel32 cfg h) ''GetProcAddress''
                 = Inr (dt_lookup_symbol t')) \<and>
            (SCFW_ENABLE_LOAD_MODULE cfg \<longrightarrow>
               init_symbol cfg h (find_kernel32 cfg h) ''LoadLibraryA''
                 = Inr (dt_load_module t')) \<and>
            (SCFW_ENABLE_UNLOAD_MODULE cfg \<longrightarrow>
               init_symbol cfg h (find_kernel32 cfg h) ''FreeLibrary''
                 = Inr (dt_unload_module t'))) \<and>
         (SCFW_MODE cfg = kernel_mode \<longrightarrow>
            (SCFW_ENABLE_CLEANUP cfg \<longrightarrow>
               init_symbol cfg h argument1 ''ExFreePool'' = Inr (dt_free t')))"
  proof (cases "SCFW_MODE cfg")
    case user_mode
    show ?thesis
    proof (cases "header_enabled cfg")
      case True
      then have "find_kernel32 cfg h \<noteq> 0" using b user_mode by (simp add: base_returns_def)
      from init0_user_located [OF this, of argument1 argument2 t] show ?thesis
        using user_mode by (auto simp: init0_def)
    next
      case False
      then show ?thesis
        using user_mode by (simp add: init0_def init0_user_disabled) (simp add: header_enabled_def)
    qed
  next
    case kernel_mode
    then have "SCFW_ENABLE_CLEANUP cfg \<longrightarrow> argument1 \<noteq> 0" using b by (simp add: base_returns_def)
    from init0_kernel_located [OF this, of h argument2 t] show ?thesis
      using kernel_mode by (auto simp: init0_def)
  qed
next
  assume "\<not> base_returns cfg h argument1"
  then show "init0 cfg h argument1 argument2 t = Inl null_module_read" by (rule init0_trap)
next
  assume "init cfg h es argument1 argument2 N t = Inr (err, t1) \<and> err \<noteq> 0"
  then show "1 \<le> err" and "err \<le> int N"
    using init_err_range [of cfg h es argument1 argument2 N t err t1] by auto
qed

subsection \<open>The theorems at concrete payloads\<close>

lemma demo_hashes:
  "fnv1a_hash (lit ''kernel32.dll'') = 701355107"
  "fnv1a_hash (lit ''ntdll.dll'') = 341012667"
  "fnv1a_hash (lit ''Sleep'') = 1832753704"
  "fnv1a_hash (lit ''Nope'') = 1997569409"
  "fnv1a_hash (lit ''VirtualFree'') = 2165803538"
  "fnv1a_hash (lit ''GetProcAddress'') = 316086277"
  "fnv1a_hash (lit ''LoadLibraryA'') = 3916229103"
  "fnv1a_hash (lit ''FreeLibrary'') = 2632337806"
  by (simp_all add: fnv1a_hash_def lit_def strlen_def peek_def hash_fold_def)

lemma demo_kernel32:
  "find_kernel32 demo_config demo_host = 0x1000"
  "find_kernel32 all_features demo_host = 0x1000"
  "find_kernel32 all_features null_host = 0"
  by (simp_all add: find_kernel32_def user_find_module_hash_def demo_config_def all_features_def
      demo_host_def null_host_def demo_hashes)

lemma demo_features:
  "SCFW_MODE demo_config = user_mode" "\<not> header_enabled demo_config"
  "SCFW_MODE all_features = user_mode" "header_enabled all_features"
  "SCFW_MODE kernel_cleanup = kernel_mode" "SCFW_ENABLE_CLEANUP kernel_cleanup"
  by (simp_all add: header_enabled_def demo_config_def all_features_def kernel_cleanup_def)

lemma demo_base_returns:
  "base_returns demo_config demo_host 0"
  "base_returns all_features demo_host 0"
  "\<not> base_returns all_features null_host 0"
  "base_returns kernel_cleanup null_host 0x8000"
  "\<not> base_returns kernel_cleanup null_host 0"
  by (simp_all add: base_returns_def demo_features demo_kernel32)

lemma demo_init_symbol:
  "x \<in> {''VirtualFree'', ''GetProcAddress'', ''LoadLibraryA'', ''FreeLibrary''} \<Longrightarrow>
   init_symbol all_features demo_host 0x1000 x = Inr 0"
  "init_symbol kernel_cleanup null_host 0x8000 x = Inr 0"
  by (auto simp: init_symbol_def mode_lookup_symbol_hash_def all_features_def kernel_cleanup_def
      demo_host_def null_host_def demo_hashes)

lemma demo_init0:
  "init0 demo_config demo_host 0 0 (zero_table n) = Inr (0, zero_table n)"
  by (simp add: init0_def init0_user_disabled header_enabled_def demo_config_def)

lemma demo_init:
  "init demo_config demo_host demo_imports 0 0 (length demo_imports) (zero_table 3)
     = Inr (3, demo_table)"
  "init demo_config demo_host demo_imports_ok 0 0 (length demo_imports_ok) (zero_table 2)
     = Inr (0, (zero_table 2)\<lparr>slots := [0x1000, 0x1234]\<rparr>)"
  by code_simp+

text \<open>Witness for C1: the third entry fails, \<open>init\<close> returns \<open>3\<close>, the first two slots are
  resolved and the third is still zero.\<close>

theorem init_first_failing_ordinal_witness:
  "init0 demo_config demo_host 0 0 (zero_table 3) = Inr (0, zero_table 3) \<and>
   header_ready demo_imports (zero_table 3) \<and> SCFW_MODE demo_config = user_mode \<and>
   module_first demo_imports \<and>
   init demo_config demo_host demo_imports 0 0 (length demo_imports) (zero_table 3)
     = Inr (3, demo_table) \<and>
   resolve_entry demo_config demo_host demo_imports demo_table 2 = Inr 0 \<and>
   resolve_entry demo_config demo_host demo_imports demo_table 0 = Inr 0x1000 \<and>
   resolve_entry demo_config demo_host demo_imports demo_table 1 = Inr 0x1234 \<and>
   slots demo_table ! 0 \<noteq> 0 \<and> slots demo_table ! 1 \<noteq> 0 \<and> slots demo_table ! 2 = 0"
proof -
  have z: "slots (zero_table 3) = replicate (length demo_imports) 0"
    by (simp add: zero_table_def demo_imports_def numeral_3_eq_3)
  have l: "nat 3 - 1 = Suc (Suc 0)" "length demo_imports = Suc (Suc (Suc 0))"
    by (simp_all add: demo_imports_def)
  have m: "SCFW_MODE demo_config = user_mode" "module_first demo_imports"
    by (simp_all add: demo_config_def module_first_def demo_imports_def)
  have "\<not> needs_load_module demo_imports" "\<not> needs_lookup_symbol demo_imports"
    by (simp_all add: needs_load_module_def needs_lookup_symbol_def symbol_strategy_def
        demo_imports_def upt_rec)
  then have hr: "header_ready demo_imports (zero_table 3)"
    by (simp add: header_ready_def)
  have s: "slots demo_table = [0x1000, 0x1234, 0]"
    by (simp add: demo_table_def)
  note inst = init_first_failing_ordinal [where es = demo_imports and zeroed = "zero_table 3"
      and cfg = demo_config and h = demo_host and arg_one = 0 and arg_two = 0
      and err = 3 and t = demo_table and tb = "zero_table 3", OF z]
  from inst demo_init(1)
  have "resolve_entry demo_config demo_host demo_imports demo_table (Suc (Suc 0)) = Inr 0"
    and r: "\<forall>i < Suc (Suc 0).
          resolve_entry demo_config demo_host demo_imports demo_table i = Inr (slots demo_table ! i)"
    and "\<forall>i < Suc (Suc 0). slots demo_table ! i \<noteq> 0"
    and "\<forall>i. Suc (Suc 0) \<le> i \<and> i < Suc (Suc (Suc 0)) \<longrightarrow> slots demo_table ! i = 0"
    unfolding l by simp_all
  moreover have "resolve_entry demo_config demo_host demo_imports demo_table 0 = Inr 0x1000"
    "resolve_entry demo_config demo_host demo_imports demo_table 1 = Inr 0x1234"
    using r [rule_format, of 0] r [rule_format, of "Suc 0"] by (simp_all add: s)
  ultimately show ?thesis
    using demo_init(1) demo_init0 [of 3] hr m by (simp add: numeral_2_eq_2 s)
qed


text \<open>Witness for C2: an \<open>init\<close> that does not return, a failing \<open>init\<close>, and a successful
  one.\<close>

theorem entry_shim_protocol_witness:
  "init all_features null_host demo_imports 0 0 (length demo_imports)
     (tables (demo_machine 3) (live all_features null_host 0x5000)) = Inl null_module_read \<and>
   map_prod trace id
     (entry_shim all_features null_host demo_imports 0x5000 (\<lambda>a1 a2 T. T) 0 0 (demo_machine 3))
     = ([call_init 0x5000 0 0], Some null_module_read) \<and>
   init demo_config demo_host demo_imports 0 0 (length demo_imports)
     (tables (demo_machine 3) (live demo_config demo_host 0x5000)) = Inr (3, demo_table) \<and>
   map_prod trace id
     (entry_shim demo_config demo_host demo_imports 0x5000 (\<lambda>a1 a2 T. T) 0 0 (demo_machine 3))
     = ([call_init 0x5000 0 0], None) \<and>
   init demo_config demo_host demo_imports_ok 0 0 (length demo_imports_ok)
     (tables (demo_machine 2) (live demo_config demo_host 0x5000))
     = Inr (0, (zero_table 2)\<lparr>slots := [0x1000, 0x1234]\<rparr>) \<and>
   map_prod trace id
     (entry_shim demo_config demo_host demo_imports_ok 0x5000 (\<lambda>a1 a2 T. T) 0 0
        (demo_machine 2))
     = ([call_init 0x5000 0 0, call_entry 0 0, call_destroy 0x5000 0 0], None)"
proof -
  have l: "live demo_config demo_host 0x5000 = 0x5000" "live all_features null_host 0x5000 = 0x5000"
    by (simp_all add: live_def demo_config_def all_features_def)
  have t: "tables (demo_machine n) a = zero_table n" "trace (demo_machine n) = []" for n a
    by (simp_all add: demo_machine_def)
  have d: "destroy demo_imports_ok (length demo_imports_ok) T = ([], None)" for T
    by (simp add: demo_imports_ok_def SCFW_FLAG_DYNAMIC_LOAD_def)
  have i0: "init0 all_features null_host 0 0 T = Inl null_module_read" for T
    using demo_base_returns(3) by (rule init0_trap)
  have trap: "init all_features null_host demo_imports 0 0 (length demo_imports)
      (tables (demo_machine 3) (live all_features null_host 0x5000)) = Inl null_module_read"
    by (simp add: demo_imports_def i0)
  have bad: "init demo_config demo_host demo_imports 0 0 (length demo_imports)
      (tables (demo_machine 3) (live demo_config demo_host 0x5000)) = Inr (3, demo_table)"
    by (simp add: l t demo_init)
  have ok: "init demo_config demo_host demo_imports_ok 0 0 (length demo_imports_ok)
      (tables (demo_machine 2) (live demo_config demo_host 0x5000))
      = Inr (0, (zero_table 2)\<lparr>slots := [0x1000, 0x1234]\<rparr>)"
    by (simp add: l t demo_init)
  from entry_shim_protocol [where cfg = all_features and h = null_host and es = demo_imports
      and m = "demo_machine 3" and dispatch_table_addr = "0x5000" and arg_one = 0
      and arg_two = 0 and entry = "\<lambda>a1 a2 T. T"] trap
  have 0: "map_prod trace id
     (entry_shim all_features null_host demo_imports 0x5000 (\<lambda>a1 a2 T. T) 0 0 (demo_machine 3))
     = ([call_init 0x5000 0 0], Some null_module_read)"
    by (simp add: l t map_prod_def split_beta)
  from entry_shim_protocol [where cfg = demo_config and h = demo_host and es = demo_imports
      and m = "demo_machine 3" and dispatch_table_addr = "0x5000" and arg_one = 0
      and arg_two = 0 and entry = "\<lambda>a1 a2 T. T"] bad
  have 1: "map_prod trace id
     (entry_shim demo_config demo_host demo_imports 0x5000 (\<lambda>a1 a2 T. T) 0 0 (demo_machine 3))
     = ([call_init 0x5000 0 0], None)"
    by (simp add: l t map_prod_def split_beta)
  have 2: "map_prod trace id
     (entry_shim demo_config demo_host demo_imports_ok 0x5000 (\<lambda>a1 a2 T. T) 0 0
        (demo_machine 2))
     = ([call_init 0x5000 0 0, call_entry 0 0, call_destroy 0x5000 0 0], None)"
    using ok by (simp add: entry_shim_def l t d Let_def)
  from trap 0 bad 1 ok 2 show ?thesis by blast
qed

text \<open>Witness for C3: a flagless symbol under a \<open>DYNAMIC_RESOLVE\<close> module, a \<open>STRING_SYMBOL\<close>
  symbol under a flagless module, and a flagless symbol under a flagless module.\<close>

theorem symbol_strategy_from_effective_flags_witness:
  "nearest_module demo_imports_flags 1 0 \<and>
   symbol_strategy demo_imports_flags 1 = by_lookup_symbol_pointer \<and>
   nearest_module demo_imports_flags 3 2 \<and>
   symbol_strategy demo_imports_flags 3 = by_export_strcmp \<and>
   nearest_module demo_imports_flags 4 2 \<and>
   symbol_strategy demo_imports_flags 4 = by_export_hash"
proof -
  have n: "nearest_module demo_imports_flags 1 0" "nearest_module demo_imports_flags 3 2"
    "nearest_module demo_imports_flags 4 2"
    by (simp_all add: nearest_module_def demo_imports_flags_def)
       (auto simp: nth_Cons' numeral_3_eq_3 numeral_2_eq_2)
  have f: "flags (demo_imports_flags ! 0) = SCFW_FLAG_DYNAMIC_RESOLVE"
    "flags (demo_imports_flags ! Suc 0) = 0" "flags (demo_imports_flags ! 2) = 0"
    "flags (demo_imports_flags ! 3) = SCFW_FLAG_STRING_SYMBOL"
    "flags (demo_imports_flags ! 4) = 0"
    by (simp_all add: demo_imports_flags_def)
  have e: "strategy_of (effective_flags 0 SCFW_FLAG_DYNAMIC_RESOLVE) = by_lookup_symbol_pointer"
    "strategy_of (effective_flags SCFW_FLAG_STRING_SYMBOL 0) = by_export_strcmp"
    "strategy_of (effective_flags 0 0) = by_export_hash"
    by (simp_all add: strategy_of_def effective_flags_def SCFW_FLAG_DYNAMIC_RESOLVE_def
        SCFW_FLAG_STRING_SYMBOL_def)
  show ?thesis
    using n
      symbol_strategy_from_effective_flags [OF n(1), of undefined undefined undefined]
      symbol_strategy_from_effective_flags [OF n(2), of undefined undefined undefined]
      symbol_strategy_from_effective_flags [OF n(3), of undefined undefined undefined]
    by (simp add: f e)
qed

text \<open>
  C10, as stated, fails where the module the header is resolved from is not located. With
  every header feature enabled and \<open>kernel32\<close> not found, the lookup of \<open>VirtualFree\<close> reads
  through the null pointer: the base \<open>init\<close> does not return \<open>0\<close> with a null slot, it does
  not return. The same holds in kernel mode with \<open>SCFW_ENABLE_CLEANUP\<close> and a null
  \<open>argument1\<close>.
\<close>

theorem init0_null_base_counterexample:
  "find_kernel32 all_features null_host = 0 \<and>
   init0 all_features null_host 0 0 (zero_table 0) = Inl null_module_read \<and>
   init0 kernel_cleanup null_host 0 0 (zero_table 0) = Inl null_module_read"
  using demo_kernel32(3) init0_trap [OF demo_base_returns(3), of 0 "zero_table 0"]
    init0_trap [OF demo_base_returns(5), of 0 "zero_table 0"]
  by simp

text \<open>Witness for C10: every header feature enabled, \<open>kernel32\<close> found at \<open>0x1000\<close>, none of
  the four symbols exported: the base \<open>init\<close> returns \<open>0\<close> with null header slots; and in
  kernel mode with the kernel at \<open>0x8000\<close> and no \<open>ExFreePool\<close> found. On the host where
  \<open>kernel32\<close> is not found it does not return. A failing \<open>init\<close> of the chain returns the
  ordinal \<open>3\<close> of one of the three entries.\<close>

theorem init0_returns_zero_witness:
  "base_returns all_features demo_host 0 \<and>
   init0 all_features demo_host 0 0 (zero_table 0) = Inr (0, zero_table 0) \<and>
   base_returns kernel_cleanup null_host 0x8000 \<and>
   init0 kernel_cleanup null_host 0x8000 0 (zero_table 0)
     = Inr (0, (zero_table 0)\<lparr>kernel_base := 0x8000\<rparr>) \<and>
   \<not> base_returns all_features null_host 0 \<and>
   init0 all_features null_host 0 0 (zero_table 0) = Inl null_module_read \<and>
   init demo_config demo_host demo_imports 0 0 (length demo_imports) (zero_table 3)
     = Inr (3, demo_table)"
proof -
  have c: "SCFW_MODE all_features = user_mode" "SCFW_ENABLE_CLEANUP all_features"
    "SCFW_ENABLE_LOOKUP_SYMBOL all_features" "SCFW_ENABLE_LOAD_MODULE all_features"
    "SCFW_ENABLE_UNLOAD_MODULE all_features" "\<not> M_IX86 all_features"
    "SCFW_MODE kernel_cleanup = kernel_mode" "SCFW_ENABLE_CLEANUP kernel_cleanup"
    "\<not> M_IX86 kernel_cleanup"
    by (simp_all add: all_features_def kernel_cleanup_def)
  have u: "init0 all_features demo_host 0 0 (zero_table 0) = Inr (0, zero_table 0)"
    by (simp add: init0_def init0_user_def c demo_kernel32 demo_init_symbol Let_def live_def)
       (simp add: zero_table_def demo_host_def null_host_def)
  have k: "init0 kernel_cleanup null_host 0x8000 0 (zero_table 0)
     = Inr (0, (zero_table 0)\<lparr>kernel_base := 0x8000\<rparr>)"
    by (simp add: init0_def init0_kernel_def c demo_init_symbol Let_def live_def)
       (simp add: zero_table_def null_host_def)
  show ?thesis
    using
      init0_returns_zero [of all_features demo_host 0 0 "zero_table 0" demo_imports 3 3 demo_table]
      init0_returns_zero [of kernel_cleanup null_host "0x8000" 0 "zero_table 0" demo_imports 3 3
        demo_table]
      init0_returns_zero [of all_features null_host 0 0 "zero_table 0" demo_imports 3 3 demo_table]
      init0_returns_zero [of demo_config demo_host 0 0 "zero_table 3" demo_imports
        "length demo_imports" 3 demo_table]
      demo_base_returns u k demo_init(1)
    by simp
qed

section \<open>PE export lookup and forwarded exports (\<open>platform/windows/common.h\<close>)\<close>

subsection \<open>The string routines it uses (\<open>crt0.h\<close>)\<close>

text \<open>\<open>strcmp\<close>: \<open>while (*lhs && (*lhs == *rhs)) { lhs++; rhs++; }\<close>, then the difference of
  the two bytes read last.\<close>

function strcmp :: "byte list \<Rightarrow> byte list \<Rightarrow> int" where
  "strcmp lhs rhs =
     (if peek lhs \<noteq> 0 \<and> peek lhs = peek rhs then strcmp (tl lhs) (tl rhs)
      else uint (peek lhs) - uint (peek rhs))"
  by pat_completeness auto
termination
  by (relation "measure (\<lambda>(lhs, rhs). length lhs)") (auto dest: peek_nonzero)

declare strcmp.simps [simp del]

text \<open>
  \<open>_wcsicmpa\<close> compares a wide string with a narrow one: both characters are folded
  (\<open>'A'..'Z'\<close> to lower case), and the narrow one is converted by \<open>(wchar_t)c2\<close>, which
  sign-extends a \<open>char\<close>.
\<close>

definition wcmp_fold :: "16 word \<Rightarrow> 16 word" where
  "wcmp_fold c = (if c \<ge> 0x41 \<and> c \<le> 0x5A then c + (0x61 - 0x41) else c)"

lemma wcmp_fold_zero: "wcmp_fold c = 0 \<longleftrightarrow> c = 0"
proof -
  have "unat (c + 0x20) = unat c + 32" if "c \<le> 0x5A"
    using that by (simp add: unat_add_lem [THEN iffD1] word_le_nat_alt)
  then show ?thesis
    unfolding wcmp_fold_def
    by (auto simp: word_le_nat_alt simp flip: unat_eq_zero)
qed

function wcsicmpa :: "16 word list \<Rightarrow> byte list \<Rightarrow> int" where
  "wcsicmpa lhs rhs =
     (if wcmp_fold (peek lhs) \<noteq> 0 \<and> wcmp_fold (peek lhs) = scast (cmp_fold (peek rhs))
      then wcsicmpa (tl lhs) (tl rhs)
      else uint (wcmp_fold (peek lhs)) - uint (scast (cmp_fold (peek rhs)) :: 16 word))"
  by pat_completeness auto
termination
  by (relation "measure (\<lambda>(lhs, rhs). length lhs)")
     (auto simp: wcmp_fold_zero dest: peek_nonzero)

declare wcsicmpa.simps [simp del]

text \<open>
  A write into a buffer of fixed size, with the write past its end as a fault; and \<open>strcpy\<close>,
  \<open>while ((*d++ = *src++));\<close>, writing from offset \<open>d\<close> on: it copies up to and including
  the terminator of \<open>src\<close>, and knows nothing of the size of \<open>dest\<close>.
\<close>

datatype fault = out_of_bounds_write nat

definition write_at :: "byte list \<Rightarrow> nat \<Rightarrow> byte \<Rightarrow> fault + byte list" where
  "write_at buf i c = (if i < length buf then Inr (buf [i := c]) else Inl (out_of_bounds_write i))"

function strcpy :: "byte list \<Rightarrow> nat \<Rightarrow> byte list \<Rightarrow> fault + byte list" where
  "strcpy dest d src =
     (case write_at dest d (peek src) of
        Inl f \<Rightarrow> Inl f
      | Inr dest' \<Rightarrow> if peek src \<noteq> 0 then strcpy dest' (d + 1) (tl src) else Inr dest')"
  by pat_completeness auto
termination
  by (relation "measure (\<lambda>(dest, d, src). length src)") (auto dest: peek_nonzero)

declare strcpy.simps [simp del]

subsection \<open>Images and the loader list\<close>

text \<open>
  What \<open>lookup_symbol_impl\<close> reads of the image mapped at a module base: the export
  directory's RVA and size (data directory entry 0), \<open>NumberOfNames\<close>, and the three arrays,
  \<open>Names\<close> already as the C string at \<open>ImageBase + Names[Index]\<close>; \<open>string_at\<close> is the C
  string at \<open>ImageBase + rva\<close>, read for a forwarder. A process maps module bases to images
  and has the loader's \<open>InLoadOrderModuleList\<close>, each entry with its \<open>BaseDllName\<close> and
  \<open>DllBase\<close>.
\<close>

record pe_image =
  ExportDirRVA :: "32 word"
  ExportDirSize :: "32 word"
  NumberOfNames :: "32 word"
  Names :: "nat \<Rightarrow> byte list"
  Ordinals :: "nat \<Rightarrow> 16 word"
  Functions :: "nat \<Rightarrow> 32 word"
  string_at :: "32 word \<Rightarrow> byte list"

record process =
  image_at :: "ptr \<Rightarrow> pe_image"
  InLoadOrderModuleList :: "(16 word list \<times> ptr) list"

text \<open>\<open>usermode::find_module_impl\<close> walks the list and returns the base of the first entry
  the comparator accepts, or null; \<open>usermode::find_module(const char*)\<close> compares with
  \<open>_wcsicmpa\<close>.\<close>

fun find_module_impl :: "(16 word list \<Rightarrow> bool) \<Rightarrow> (16 word list \<times> ptr) list \<Rightarrow> ptr" where
  "find_module_impl comparator [] = 0"
| "find_module_impl comparator ((BaseDllName, DllBase) # rest) =
     (if comparator BaseDllName then DllBase else find_module_impl comparator rest)"

definition usermode_find_module :: "process \<Rightarrow> byte list \<Rightarrow> ptr" where
  "usermode_find_module pr nm =
     find_module_impl (\<lambda>module. wcsicmpa module nm = 0) (InLoadOrderModuleList pr)"

subsection \<open>The forwarder branch\<close>

text \<open>
  The branch of \<open>lookup_symbol_impl\<close> under \<open>SCFW_ENABLE_FIND_MODULE_FORWARDER\<close>, up to the
  recursive call: it ends in \<open>return nullptr\<close>, in a write outside \<open>char DllName[64]\<close>, or
  with the target module and the function name to look up there. \<open>DllNameLen\<close> is
  \<open>Dot - ForwardStr\<close>; the buffer starts as 64 arbitrary bytes (zeros here: it is written before
  it is read).
\<close>

datatype forward = forward_null | forward_fault fault | forward_to ptr "byte list"

definition write_dll_suffix :: "byte list \<Rightarrow> nat \<Rightarrow> fault + byte list" where
  "write_dll_suffix DllName DllNameLen =
     (case write_at DllName (DllNameLen + 0) 0x2E of Inl f \<Rightarrow> Inl f | Inr b0 \<Rightarrow>
      case write_at b0 (DllNameLen + 1) 0x64 of Inl f \<Rightarrow> Inl f | Inr b1 \<Rightarrow>
      case write_at b1 (DllNameLen + 2) 0x6C of Inl f \<Rightarrow> Inl f | Inr b2 \<Rightarrow>
      case write_at b2 (DllNameLen + 3) 0x6C of Inl f \<Rightarrow> Inl f | Inr b3 \<Rightarrow>
      write_at b3 (DllNameLen + 4) 0)"

definition resolve_forwarder :: "process \<Rightarrow> byte list \<Rightarrow> forward" where
  "resolve_forwarder pr ForwardStr =
     (let DllNameLen = length (takeWhile (\<lambda>c. c \<noteq> 0 \<and> c \<noteq> 0x2E) ForwardStr);
          Dot = drop DllNameLen ForwardStr
      in if peek Dot = 0 then forward_null
         else if DllNameLen + 5 > 64 then forward_null
         else
           (case strcpy (replicate 64 0) 0 ForwardStr of
              Inl f \<Rightarrow> forward_fault f
            | Inr DllName \<Rightarrow>
                (case write_dll_suffix DllName DllNameLen of
                   Inl f \<Rightarrow> forward_fault f
                 | Inr DllName \<Rightarrow>
                     (let FuncName = tl Dot
                      in if peek FuncName = 0x23 then forward_null
                         else
                           (let TargetModule = usermode_find_module pr DllName
                            in if TargetModule = 0 then forward_null
                               else forward_to TargetModule FuncName)))))"

subsection \<open>\<open>lookup_symbol_impl\<close> and \<open>lookup_symbol\<close>\<close>

text \<open>
  The loop \<open>for (ULONG Index = NumberOfNames; Index--;)\<close> is a recursion on the number of
  names still to visit. \<open>fwd\<close> says whether \<open>SCFW_ENABLE_FIND_MODULE_FORWARDER\<close> is defined.
  A forwarder chain can go through any number of modules (or around a cycle), so the recursive
  \<open>lookup_symbol\<close> call takes one unit of \<open>fuel\<close>, and a chain longer than the fuel is the
  value \<open>None\<close>; the scan itself needs none. (\<open>module\<close> is written \<open>module'\<close>.)
\<close>

definition in_export_directory :: "pe_image \<Rightarrow> 32 word \<Rightarrow> bool" where
  "in_export_directory img FunctionRVA \<longleftrightarrow>
     FunctionRVA \<ge> ExportDirRVA img \<and> FunctionRVA < ExportDirRVA img + ExportDirSize img"

fun lookup_symbol_impl ::
  "bool \<Rightarrow> process \<Rightarrow> nat \<Rightarrow> ptr \<Rightarrow> (byte list \<Rightarrow> bool) \<Rightarrow> nat \<Rightarrow> (fault + ptr) option" where
  "lookup_symbol_impl fwd pr fuel module' comparator 0 = Some (Inr 0)"
| "lookup_symbol_impl fwd pr fuel module' comparator (Suc Index) =
     (if comparator (Names (image_at pr module') Index) then
        (let FunctionRVA =
               Functions (image_at pr module') (unat (Ordinals (image_at pr module') Index))
         in if fwd \<and> in_export_directory (image_at pr module') FunctionRVA then
              (case resolve_forwarder pr (string_at (image_at pr module') FunctionRVA) of
                 forward_null \<Rightarrow> Some (Inr 0)
               | forward_fault f \<Rightarrow> Some (Inl f)
               | forward_to TargetModule FuncName \<Rightarrow>
                   (case fuel of
                      0 \<Rightarrow> None
                    | Suc fuel' \<Rightarrow>
                        lookup_symbol_impl fwd pr fuel' TargetModule
                          (\<lambda>export_name. strcmp export_name FuncName = 0)
                          (unat (NumberOfNames (image_at pr TargetModule)))))
            else Some (Inr (module' + unat FunctionRVA)))
      else lookup_symbol_impl fwd pr fuel module' comparator Index)"

definition lookup_symbol :: "bool \<Rightarrow> process \<Rightarrow> nat \<Rightarrow> ptr \<Rightarrow> byte list \<Rightarrow> (fault + ptr) option" where
  "lookup_symbol fwd pr fuel module' nm =
     lookup_symbol_impl fwd pr fuel module' (\<lambda>export_name. strcmp export_name nm = 0)
       (unat (NumberOfNames (image_at pr module')))"

definition lookup_symbol_hash :: "bool \<Rightarrow> process \<Rightarrow> nat \<Rightarrow> ptr \<Rightarrow> 32 word \<Rightarrow> (fault + ptr) option" where
  "lookup_symbol_hash fwd pr fuel module' hash =
     lookup_symbol_impl fwd pr fuel module' (\<lambda>export_name. fnv1a_hash export_name = hash)
       (unat (NumberOfNames (image_at pr module')))"


subsection \<open>A process with a forwarded export\<close>

text \<open>
  \<open>a.dll\<close> at \<open>0x10000\<close> exports \<open>Beep\<close> twice (indices 0 and 3), \<open>F\<close>, forwarded to
  \<open>B.G\<close>, and \<open>Q\<close>, forwarded to a function of an API-set DLL with a long name;
  \<open>B.DLL\<close> at \<open>0x20000\<close> exports \<open>G\<close> at RVA \<open>0x500\<close>.
\<close>

definition wide :: "string \<Rightarrow> 16 word list" where
  "wide s = map (\<lambda>c. of_nat (of_char c)) s"

definition long_forwarder :: "byte list" where
  "long_forwarder = lit ''api-ms-win-core-realtime-l1-1-0.QueryUnbiasedInterruptTimePrecise''"

definition image_a :: pe_image where
  "image_a =
     \<lparr> ExportDirRVA = 0x2000, ExportDirSize = 0x100, NumberOfNames = 4,
       Names = (\<lambda>i. if i = 1 then lit ''F'' else if i = 2 then lit ''Q'' else lit ''Beep''),
       Ordinals = (\<lambda>i. of_nat i),
       Functions = (\<lambda>i. if i = 0 then 0x1111 else if i = 1 then 0x2010
                         else if i = 2 then 0x2020 else 0x3333),
       string_at = (\<lambda>rva. if rva = 0x2010 then lit ''B.G'' else long_forwarder) \<rparr>"

definition image_b :: pe_image where
  "image_b =
     \<lparr> ExportDirRVA = 0x2000, ExportDirSize = 0x100, NumberOfNames = 1,
       Names = (\<lambda>i. lit ''G''), Ordinals = (\<lambda>i. 0), Functions = (\<lambda>i. 0x500),
       string_at = (\<lambda>rva. []) \<rparr>"

definition demo_process :: process where
  "demo_process =
     \<lparr> image_at = (\<lambda>a. if a = 0x10000 then image_a else image_b),
       InLoadOrderModuleList = [(wide ''a.dll'', 0x10000), (wide ''B.DLL'', 0x20000)] \<rparr>"


text \<open>\<open>dot_index\<close> is \<open>DllNameLen\<close>, the offset of \<open>Dot\<close> after the loop
  \<open>while (*Dot && *Dot != '.') Dot++;\<close>.\<close>

definition dot_index :: "byte list \<Rightarrow> nat" where
  "dot_index ForwardStr = length (takeWhile (\<lambda>c. c \<noteq> 0 \<and> c \<noteq> 0x2E) ForwardStr)"

subsection \<open>The scan\<close>

lemma scan_no_match:
  "(\<forall>i<n. \<not> comparator (Names (image_at pr m) i)) \<Longrightarrow>
   lookup_symbol_impl fwd pr fuel m comparator n = Some (Inr 0)"
  by (induction n) simp_all

lemma scan_skip:
  "i \<le> n \<Longrightarrow> (\<forall>j. i \<le> j \<and> j < n \<longrightarrow> \<not> comparator (Names (image_at pr m) j)) \<Longrightarrow>
   lookup_symbol_impl fwd pr fuel m comparator n = lookup_symbol_impl fwd pr fuel m comparator i"
proof (induction n)
  case 0
  then show ?case by simp
next
  case (Suc n)
  show ?case
  proof (cases "i = Suc n")
    case True
    then show ?thesis by simp
  next
    case False
    with Suc.prems have "i \<le> n" "\<not> comparator (Names (image_at pr m) n)" by auto
    with Suc show ?thesis by simp
  qed
qed

lemma scan_highest:
  assumes "i < n" and "comparator (Names (image_at pr m) i)"
    and "\<forall>j. i < j \<and> j < n \<longrightarrow> \<not> comparator (Names (image_at pr m) j)"
    and "\<not> fwd \<or> \<not> in_export_directory (image_at pr m)
           (Functions (image_at pr m) (unat (Ordinals (image_at pr m) i)))"
  shows "lookup_symbol_impl fwd pr fuel m comparator n =
         Some (Inr (m + unat (Functions (image_at pr m) (unat (Ordinals (image_at pr m) i)))))"
proof -
  have "lookup_symbol_impl fwd pr fuel m comparator n =
        lookup_symbol_impl fwd pr fuel m comparator (Suc i)"
    using assms(1,3) by (intro scan_skip) auto
  also have "\<dots> = Some (Inr (m + unat (Functions (image_at pr m) (unat (Ordinals (image_at pr m) i)))))"
    using assms(2,4) by (auto simp: Let_def)
  finally show ?thesis .
qed

text \<open>
  C4, amended. \<open>lookup_symbol\<close>, by name or by hash, is the scan of the export name table
  with the comparator of the name or of the hash. The scan returns null when no name matches;
  and for the highest index \<open>i\<close> whose name matches (so, of two equal names, the one with the
  higher index) it returns the module base plus the RVA at \<open>Functions[Ordinals[i]]\<close>, unless
  forwarder support is compiled in and that RVA lies inside the export directory.
\<close>

theorem lookup_symbol_scan:
  fixes pr :: process and m :: ptr
  defines "img \<equiv> image_at pr m"
  defines "n \<equiv> unat (NumberOfNames img)"
  shows "lookup_symbol fwd pr fuel m nm =
           lookup_symbol_impl fwd pr fuel m (\<lambda>export_name. strcmp export_name nm = 0) n \<and>
         lookup_symbol_hash fwd pr fuel m hash =
           lookup_symbol_impl fwd pr fuel m (\<lambda>export_name. fnv1a_hash export_name = hash) n \<and>
         ((\<forall>i<n. \<not> comparator (Names img i)) \<longrightarrow>
            lookup_symbol_impl fwd pr fuel m comparator n = Some (Inr 0)) \<and>
         (i < n \<and> comparator (Names img i) \<and>
          (\<forall>j. i < j \<and> j < n \<longrightarrow> \<not> comparator (Names img j)) \<and>
          (\<not> fwd \<or> \<not> in_export_directory img (Functions img (unat (Ordinals img i)))) \<longrightarrow>
            lookup_symbol_impl fwd pr fuel m comparator n =
              Some (Inr (m + unat (Functions img (unat (Ordinals img i))))))"
  using scan_no_match [of n comparator pr m fwd fuel]
    scan_highest [of i n comparator pr m fwd fuel]
  unfolding img_def n_def lookup_symbol_def lookup_symbol_hash_def
  by blast


subsection \<open>What \<open>strcpy\<close> writes\<close>

lemma strcpy_ok:
  "d + strlen src < length dest \<Longrightarrow>
   strcpy dest d src = Inr (take d dest @ cstr src @ 0 # drop (d + strlen src + 1) dest)"
proof (induction dest d src rule: strcpy.induct)
  case (1 dest d src)
  then have d: "d < length dest" by simp
  show ?case
  proof (cases "peek src = 0")
    case True
    then have "strlen src = 0" "cstr src = []"
      by (cases src; simp add: peek_def strlen_def cstr_def)+
    then show ?thesis
      using d True by (subst strcpy.simps) (simp add: write_at_def upd_conv_take_nth_drop)
  next
    case False
    then obtain c cs where src: "src = c # cs" "c \<noteq> 0"
      by (cases src) (auto simp: peek_def)
    then have l: "strlen src = Suc (strlen cs)" "cstr src = c # cstr cs"
      by (simp_all add: strlen_def cstr_def)
    have w: "write_at dest d (peek src) = Inr (dest[d := c])" and nz: "peek src \<noteq> 0"
      using d src by (simp_all add: write_at_def peek_def)
    have ih: "strcpy (dest[d := c]) (d + 1) cs =
        Inr (take (d + 1) (dest[d := c]) @ cstr cs @ 0 # drop (d + 1 + strlen cs + 1) (dest[d := c]))"
      using "1.IH" [OF w nz] "1.prems" l src by simp
    have "strcpy dest d src = strcpy (dest[d := c]) (d + 1) cs"
      using d src by (subst strcpy.simps) (simp add: write_at_def peek_def)
    also note ih
    finally show ?thesis
      using d l by (simp add: take_Suc_conv_app_nth)
  qed
qed

lemma strcpy_overflow:
  "d \<le> length dest \<Longrightarrow> length dest \<le> d + strlen src \<Longrightarrow>
   strcpy dest d src = Inl (out_of_bounds_write (length dest))"
proof (induction dest d src rule: strcpy.induct)
  case (1 dest d src)
  show ?case
  proof (cases "d = length dest")
    case True
    then show ?thesis by (subst strcpy.simps) (simp add: write_at_def)
  next
    case False
    with "1.prems" have d: "d < length dest" by simp
    with "1.prems" have "0 < strlen src" by simp
    then obtain c cs where src: "src = c # cs" "c \<noteq> 0"
      by (cases src) (auto simp: strlen_def split: if_splits)
    then have l: "strlen src = Suc (strlen cs)"
      by (simp add: strlen_def)
    have "strcpy dest d src = strcpy (dest[d := c]) (d + 1) cs"
      using d src by (subst strcpy.simps) (simp add: write_at_def peek_def)
    also have "\<dots> = Inl (out_of_bounds_write (length (dest[d := c])))"
    proof -
      have w: "write_at dest d (peek src) = Inr (dest[d := c])" and nz: "peek src \<noteq> 0"
        using d src by (simp_all add: write_at_def peek_def)
      show ?thesis
        using "1.IH" [OF w nz] "1.prems" l src d by simp
    qed
    finally show ?thesis by simp
  qed
qed


subsection \<open>The forwarder branch, by the length of the forwarder string\<close>

lemma write_dll_suffix_ok:
  assumes "n + 5 \<le> length buf"
  shows "write_dll_suffix buf n = Inr (take n buf @ [0x2E, 0x64, 0x6C, 0x6C, 0] @ drop (n + 5) buf)"
proof -
  have "buf[n := a, n + 1 := b, n + 2 := c, n + 3 := d, n + 4 := e] =
        take n buf @ [a, b, c, d, e] @ drop (n + 5) buf" for a b c d e :: byte
  proof (rule nth_equalityI)
    show "length (buf[n := a, n + 1 := b, n + 2 := c, n + 3 := d, n + 4 := e]) =
          length (take n buf @ [a, b, c, d, e] @ drop (n + 5) buf)"
      using assms by simp
  next
    fix i assume "i < length (buf[n := a, n + 1 := b, n + 2 := c, n + 3 := d, n + 4 := e])"
    then have i: "i < length buf" by simp
    consider "i < n" | "i = n" | "i = n + 1" | "i = n + 2" | "i = n + 3" | "i = n + 4"
      | "n + 5 \<le> i" by linarith
    then show "buf[n := a, n + 1 := b, n + 2 := c, n + 3 := d, n + 4 := e] ! i =
          (take n buf @ [a, b, c, d, e] @ drop (n + 5) buf) ! i"
      using i assms
      by cases (simp_all add: nth_append nth_list_update min_def)
  qed
  then show ?thesis
    using assms by (simp add: write_dll_suffix_def write_at_def)
qed

lemma dot_index_le_strlen: "dot_index fs \<le> strlen fs"
  unfolding dot_index_def strlen_def by (induction fs) auto

lemma resolve_forwarder_overflow:
  assumes "peek (drop (dot_index fs) fs) \<noteq> 0" and "dot_index fs + 5 \<le> 64"
    and "64 \<le> strlen fs"
  shows "resolve_forwarder pr fs = forward_fault (out_of_bounds_write 64)"
proof -
  have "strcpy (replicate 64 0) 0 fs = Inl (out_of_bounds_write 64)"
    using strcpy_overflow [of 0 "replicate 64 0" fs] assms(3) by simp
  then show ?thesis
    using assms(1,2) by (simp add: resolve_forwarder_def Let_def flip: dot_index_def)
qed

lemma resolve_forwarder_short:
  assumes "strlen fs < 64" and "peek (drop (dot_index fs) fs) \<noteq> 0"
    and "dot_index fs + 5 \<le> 64"
  shows "resolve_forwarder pr fs =
     (if peek (tl (drop (dot_index fs) fs)) = 0x23 then forward_null
      else
        (let TargetModule = usermode_find_module pr
               (take (dot_index fs) fs @ [0x2E, 0x64, 0x6C, 0x6C, 0] @
                drop (dot_index fs + 5) (cstr fs @ 0 # drop (strlen fs + 1) (replicate 64 0)))
         in if TargetModule = 0 then forward_null
            else forward_to TargetModule (tl (drop (dot_index fs) fs))))"
proof -
  let ?buf = "cstr fs @ 0 # drop (strlen fs + 1) (replicate 64 0)"
  have cp: "strcpy (replicate 64 0) 0 fs = Inr ?buf"
    using strcpy_ok [of 0 fs "replicate 64 0"] assms(1) by simp
  have len: "length ?buf = 64"
    using assms(1) by (simp add: cstr_def strlen_def)
  have tk: "take (dot_index fs) ?buf = take (dot_index fs) fs"
  proof -
    have "take (dot_index fs) (cstr fs) = take (dot_index fs) fs"
      unfolding cstr_def dot_index_def by (induction fs) auto
    moreover have "dot_index fs \<le> length (cstr fs)"
      using dot_index_le_strlen [of fs] by (simp add: cstr_def strlen_def)
    ultimately show ?thesis by simp
  qed
  have sfx: "write_dll_suffix ?buf (dot_index fs) =
      Inr (take (dot_index fs) fs @ [0x2E, 0x64, 0x6C, 0x6C, 0] @ drop (dot_index fs + 5) ?buf)"
    using write_dll_suffix_ok [of "dot_index fs" ?buf] assms(3) len tk by simp
  have g: "\<not> 64 < dot_index fs + 5" using assms(3) by simp
  show ?thesis
    unfolding resolve_forwarder_def Let_def dot_index_def [symmetric]
    by (simp only: cp sfx sum.case assms(2) g if_False)
qed


subsection \<open>The lookups in the process above\<close>

lemma demo_images:
  "image_at demo_process 0x10000 = image_a" "image_at demo_process 0x20000 = image_b"
  "unat (NumberOfNames image_a) = Suc (Suc (Suc (Suc 0)))"
  "unat (NumberOfNames image_b) = Suc 0"
  by (simp_all add: demo_process_def image_a_def image_b_def)

lemma demo_names:
  "Names image_a 0 = lit ''Beep''" "Names image_a (Suc 0) = lit ''F''"
  "Names image_a (Suc (Suc 0)) = lit ''Q''" "Names image_a (Suc (Suc (Suc 0))) = lit ''Beep''"
  "Names image_b 0 = lit ''G''"
  "Names image_a 1 = lit ''F''" "Names image_a 2 = lit ''Q''" "Names image_a 3 = lit ''Beep''"
  by (simp_all add: image_a_def image_b_def)

lemma demo_functions:
  "Functions image_a (unat (Ordinals image_a (Suc 0))) = 0x2010"
  "Functions image_a (unat (Ordinals image_a (Suc (Suc 0)))) = 0x2020"
  "Functions image_a (unat (Ordinals image_a (Suc (Suc (Suc 0))))) = 0x3333"
  "Functions image_b (unat (Ordinals image_b 0)) = 0x500"
  "Functions image_a (unat (Ordinals image_a 1)) = 0x2010"
  by (simp_all add: image_a_def image_b_def)

lemma demo_export_directory:
  "in_export_directory image_a 0x2010" "in_export_directory image_a 0x2020"
  "\<not> in_export_directory image_a 0x3333" "\<not> in_export_directory image_b 0x500"
  by (simp_all add: in_export_directory_def image_a_def image_b_def)

lemma demo_strings:
  "string_at image_a 0x2010 = lit ''B.G''" "string_at image_a 0x2020 = long_forwarder"
  by (simp_all add: image_a_def)

lemma demo_strcmp:
  "strcmp (lit ''Beep'') (lit ''F'') \<noteq> 0" "strcmp (lit ''Q'') (lit ''F'') \<noteq> 0"
  "strcmp (lit ''F'') (lit ''F'') = 0" "strcmp (lit ''G'') (lit ''G'') = 0"
  "strcmp (lit ''Beep'') (lit ''Q'') \<noteq> 0" "strcmp (lit ''Q'') (lit ''Q'') = 0"
  "strcmp (lit ''Beep'') (lit ''Beep'') = 0"
  "strcmp (lit ''Beep'') (lit ''Nope'') \<noteq> 0" "strcmp (lit ''F'') (lit ''Nope'') \<noteq> 0"
  "strcmp (lit ''Q'') (lit ''Nope'') \<noteq> 0"
  by (simp_all add: strcmp.simps lit_def peek_def)

lemma demo_long_forwarder:
  "dot_index long_forwarder = 31" "strlen long_forwarder = 65"
  "peek (drop (dot_index long_forwarder) long_forwarder) \<noteq> 0"
  by (simp_all add: long_forwarder_def lit_def dot_index_def strlen_def peek_def)

lemma demo_short_forwarder:
  "dot_index (lit ''B.G'') = 1" "strlen (lit ''B.G'') = 3" "cstr (lit ''B.G'') = lit ''B.G''"
  "peek (drop (dot_index (lit ''B.G'')) (lit ''B.G'')) \<noteq> 0"
  "tl (drop (dot_index (lit ''B.G'')) (lit ''B.G'')) = lit ''G''"
  by (simp_all add: lit_def dot_index_def strlen_def cstr_def peek_def)

lemma demo_find_module:
  "usermode_find_module demo_process (0x42 # 0x2E # 0x64 # 0x6C # 0x6C # 0 # rest) = 0x20000"
  by (simp add: usermode_find_module_def demo_process_def wide_def wcsicmpa.simps peek_def
      wcmp_fold_def cmp_fold_def)

lemma demo_resolve_forwarder:
  "resolve_forwarder demo_process (lit ''B.G'') = forward_to 0x20000 (lit ''G'')"
proof -
  have "resolve_forwarder demo_process (lit ''B.G'') =
     (if peek (tl (drop (dot_index (lit ''B.G'')) (lit ''B.G''))) = 0x23 then forward_null
      else
        (let TargetModule = usermode_find_module demo_process
               (take (dot_index (lit ''B.G'')) (lit ''B.G'') @ [0x2E, 0x64, 0x6C, 0x6C, 0] @
                drop (dot_index (lit ''B.G'') + 5)
                  (cstr (lit ''B.G'') @ 0 # drop (strlen (lit ''B.G'') + 1) (replicate 64 0)))
         in if TargetModule = 0 then forward_null
            else forward_to TargetModule (tl (drop (dot_index (lit ''B.G'')) (lit ''B.G'')))))"
    by (rule resolve_forwarder_short [OF _ demo_short_forwarder(4)])
       (simp_all add: demo_short_forwarder(1,2))
  also have "take (dot_index (lit ''B.G'')) (lit ''B.G'') = [0x42]"
    by (simp add: demo_short_forwarder(1)) (simp add: lit_def)
  finally show ?thesis
    by (simp add: demo_short_forwarder(5) demo_find_module Let_def) (simp add: lit_def peek_def)
qed

lemma demo_lookups:
  "lookup_symbol True demo_process 1 0x10000 (lit ''F'') = Some (Inr 0x20500)"
  "lookup_symbol True demo_process fuel 0x10000 (lit ''Q'') = Some (Inl (out_of_bounds_write 64))"
proof -
  show "lookup_symbol True demo_process 1 0x10000 (lit ''F'') = Some (Inr 0x20500)"
    by (simp add: lookup_symbol_def demo_images demo_names demo_functions demo_strcmp
        demo_export_directory demo_strings demo_resolve_forwarder)
  have "resolve_forwarder demo_process long_forwarder = forward_fault (out_of_bounds_write 64)"
    by (rule resolve_forwarder_overflow [OF demo_long_forwarder(3)])
       (simp_all add: demo_long_forwarder(1,2))
  then show "lookup_symbol True demo_process fuel 0x10000 (lit ''Q'')
      = Some (Inl (out_of_bounds_write 64))"
    by (simp add: lookup_symbol_def demo_images demo_names demo_functions demo_strcmp
        demo_export_directory demo_strings)
qed


lemma resolve_forwarder_no_fault:
  assumes "strlen fs < 64"
  shows "resolve_forwarder pr fs \<noteq> forward_fault f"
proof (cases "peek (drop (dot_index fs) fs) \<noteq> 0 \<and> dot_index fs + 5 \<le> 64")
  case True
  then show ?thesis
    using resolve_forwarder_short [OF assms, of pr] by (simp add: Let_def)
next
  case False
  then show ?thesis
    by (auto simp: resolve_forwarder_def Let_def simp flip: dot_index_def)
qed

lemma resolve_forwarder_ordinal:
  assumes "strlen fs < 64" and "peek (tl (drop (dot_index fs) fs)) = 0x23"
  shows "resolve_forwarder pr fs = forward_null"
proof (cases "peek (drop (dot_index fs) fs) \<noteq> 0 \<and> dot_index fs + 5 \<le> 64")
  case True
  then show ?thesis
    using resolve_forwarder_short [OF assms(1), of pr] assms(2) by simp
next
  case False
  then show ?thesis
    by (auto simp: resolve_forwarder_def Let_def simp flip: dot_index_def)
qed

text \<open>
  C4, as stated, fails when forwarder support is compiled in: in \<open>a.dll\<close> the highest index
  whose name is \<open>F\<close> is 1, the module base plus the RVA at \<open>Functions[Ordinals[1]]\<close> is
  \<open>0x12010\<close>, and \<open>lookup_symbol\<close> returns \<open>0x20500\<close>, the address of \<open>G\<close> in \<open>B.DLL\<close>.
\<close>

theorem lookup_symbol_forwarded_counterexample:
  "strcmp (Names (image_at demo_process 0x10000) 3) (lit ''F'') \<noteq> 0 \<and>
   strcmp (Names (image_at demo_process 0x10000) 2) (lit ''F'') \<noteq> 0 \<and>
   strcmp (Names (image_at demo_process 0x10000) 1) (lit ''F'') = 0 \<and>
   0x10000 + unat (Functions (image_at demo_process 0x10000)
                     (unat (Ordinals (image_at demo_process 0x10000) 1))) = (0x12010 :: nat) \<and>
   lookup_symbol True demo_process 1 0x10000 (lit ''F'') = Some (Inr 0x20500)"
  using demo_lookups(1)
  by (simp add: demo_images(1) demo_names demo_strcmp demo_functions)

text \<open>Witness for C4: \<open>Beep\<close> is found at index 3, the higher of its two entries; \<open>Nope\<close>
  is not exported.\<close>

theorem lookup_symbol_scan_witness:
  "lookup_symbol True demo_process 0 0x10000 (lit ''Beep'') = Some (Inr 0x13333) \<and>
   lookup_symbol True demo_process 0 0x10000 (lit ''Nope'') = Some (Inr 0)"
proof -
  let ?img = "image_at demo_process 0x10000"
  have n: "unat (NumberOfNames ?img) = Suc (Suc (Suc (Suc 0)))"
    by (simp add: demo_images)
  have a: "Suc (Suc (Suc 0)) < unat (NumberOfNames ?img)"
    unfolding n by simp
  have b: "strcmp (Names ?img (Suc (Suc (Suc 0)))) (lit ''Beep'') = 0"
    by (simp add: demo_images(1) demo_names demo_strcmp)
  have c: "\<forall>j. Suc (Suc (Suc 0)) < j \<and> j < unat (NumberOfNames ?img) \<longrightarrow>
         \<not> strcmp (Names ?img j) (lit ''Beep'') = 0"
    unfolding n by auto
  have d: "\<not> in_export_directory ?img (Functions ?img (unat (Ordinals ?img (Suc (Suc (Suc 0))))))"
    by (simp add: demo_images(1) demo_functions demo_export_directory)
  have v: "Functions ?img (unat (Ordinals ?img (Suc (Suc (Suc 0))))) = 0x3333"
    by (simp add: demo_images(1) demo_functions)
  have "lookup_symbol True demo_process 0 0x10000 (lit ''Beep'') =
      Some (Inr (0x10000 + unat (Functions ?img (unat (Ordinals ?img (Suc (Suc (Suc 0))))))))"
    using lookup_symbol_scan [where pr = demo_process and m = "0x10000" and fwd = True
        and fuel = 0 and nm = "lit ''Beep''" and i = "Suc (Suc (Suc 0))"
        and comparator = "\<lambda>export_name. strcmp export_name (lit ''Beep'') = 0"] a b c d
    by metis
  then have 1: "lookup_symbol True demo_process 0 0x10000 (lit ''Beep'') = Some (Inr 0x13333)"
    unfolding v by simp
  have "\<not> strcmp (Names ?img i) (lit ''Nope'') = 0" if "i < Suc (Suc (Suc (Suc 0)))" for i
  proof -
    from that consider "i = 0" | "i = Suc 0" | "i = Suc (Suc 0)" | "i = Suc (Suc (Suc 0))"
      by linarith
    then show ?thesis
      by cases (simp_all add: demo_images(1) demo_names demo_strcmp)
  qed
  then have h2: "\<forall>i < unat (NumberOfNames ?img). \<not> strcmp (Names ?img i) (lit ''Nope'') = 0"
    unfolding n by blast
  have 2: "lookup_symbol True demo_process 0 0x10000 (lit ''Nope'') = Some (Inr 0)"
    using lookup_symbol_scan [where pr = demo_process and m = "0x10000" and fwd = True
        and fuel = 0 and nm = "lit ''Nope''"
        and comparator = "\<lambda>export_name. strcmp export_name (lit ''Nope'') = 0"] h2
    by metis
  from 1 2 show ?thesis by simp
qed

text \<open>
  C5. The forwarder string
  \<open>api-ms-win-core-realtime-l1-1-0.QueryUnbiasedInterruptTimePrecise\<close> has a DLL-name part
  of 31 characters, which passes the guard \<open>DllNameLen + 5 <= 64\<close>, and 65 characters in
  all: \<open>strcpy(DllName, ForwardStr)\<close> copies all of them and writes at index 64 of the 64-byte
  buffer. (For a forwarder string of fewer than 64 characters no write is outside the buffer,
  and a function name starting with \<open>#\<close> gives null: \<open>resolve_forwarder_no_fault\<close>,
  \<open>resolve_forwarder_ordinal\<close>.)
\<close>

theorem forwarder_strcpy_overflow:
  "dot_index long_forwarder + 5 \<le> 64 \<and> strlen long_forwarder = 65 \<and>
   resolve_forwarder pr long_forwarder = forward_fault (out_of_bounds_write 64) \<and>
   lookup_symbol True demo_process fuel 0x10000 (lit ''Q'') = Some (Inl (out_of_bounds_write 64))"
proof -
  have "resolve_forwarder pr long_forwarder = forward_fault (out_of_bounds_write 64)"
    by (rule resolve_forwarder_overflow [OF demo_long_forwarder(3)])
       (simp_all add: demo_long_forwarder(1,2))
  then show ?thesis
    using demo_lookups(2) [of fuel] by (simp add: demo_long_forwarder(1,2))
qed

section \<open>The kernel-mode module enumerator (\<open>kernelmode::find_module_impl\<close>)\<close>

definition STATUS_SUCCESS :: "32 word" where "STATUS_SUCCESS = 0"
definition STATUS_INFO_LENGTH_MISMATCH :: "32 word" where
  "STATUS_INFO_LENGTH_MISMATCH = 0xC0000004"
definition STATUS_ACCESS_DENIED :: "32 word" where "STATUS_ACCESS_DENIED = 0xC0000022"

text \<open>
  What the kernel does in one turn of the loop: the pointer \<open>ExAllocatePool\<close> returns if it
  is called in this turn (null when the allocation fails), and the status and the
  \<open>ReturnLength\<close> that \<open>ZwQuerySystemInformation\<close> gives. A run of the helper is driven by the
  list of these answers, one per turn. The kernel's module list is \<open>system_modules\<close>, each
  module with its file name and image base; \<open>stale\<close> is what the pool memory at an address
  holds when no query has filled it. The three routines are taken as resolved.
\<close>

record answer =
  allocated :: ptr
  Status :: "32 word"
  ReturnLength :: "32 word"

record kernel =
  system_modules :: "(byte list \<times> ptr) list"
  stale :: "ptr \<Rightarrow> (byte list \<times> ptr) list"

text \<open>The calls the helper makes and its read of the module array, in order; and the read
  through a null \<open>Buffer\<close>.\<close>

datatype kernel_call =
    ExAllocatePool_call "32 word" ptr
  | ExFreePool_call ptr
  | ZwQuerySystemInformation_call ptr "32 word" "32 word"
  | read_modules ptr

datatype kernel_fault = null_pointer_read

text \<open>
  The \<open>do ... while (Status == STATUS_INFO_LENGTH_MISMATCH)\<close> loop, from \<open>Buffer\<close>,
  \<open>BufferLength\<close>, \<open>RequiredLength\<close> and the calls made so far. It returns the last status,
  the buffer and the calls; \<open>None\<close> when the answers run out before the loop ends.
\<close>

fun query_loop ::
  "answer list \<Rightarrow> ptr \<Rightarrow> 32 word \<Rightarrow> 32 word \<Rightarrow> kernel_call list
   \<Rightarrow> (32 word \<times> ptr \<times> kernel_call list) option" where
  "query_loop [] Buffer BufferLength RequiredLength calls = None"
| "query_loop (a # answers) Buffer BufferLength RequiredLength calls =
     (let calls1 = (if RequiredLength \<noteq> 0 \<and> Buffer \<noteq> 0
                    then calls @ [ExFreePool_call Buffer] else calls);
          calls2 = (if RequiredLength \<noteq> 0
                    then calls1 @ [ExAllocatePool_call RequiredLength (allocated a)] else calls1);
          Buffer' = (if RequiredLength \<noteq> 0 then allocated a else Buffer);
          BufferLength' = (if RequiredLength \<noteq> 0 then RequiredLength else BufferLength);
          calls3 = calls2 @ [ZwQuerySystemInformation_call Buffer' BufferLength' (Status a)]
      in if Status a = STATUS_INFO_LENGTH_MISMATCH
         then query_loop answers Buffer' BufferLength' (ReturnLength a) calls3
         else Some (Status a, Buffer', calls3))"

text \<open>
  After the loop the helper reads \<open>Modules->NumberOfModules\<close> and the array from \<open>Buffer\<close>,
  whatever the status was: the array is the kernel's list when the query succeeded and the
  stale content of the pool block otherwise. The first module the comparator accepts gives the
  result; then \<open>pExFreePool(Buffer)\<close>.
\<close>

fun scan_modules :: "(byte list \<Rightarrow> bool) \<Rightarrow> (byte list \<times> ptr) list \<Rightarrow> ptr" where
  "scan_modules comparator [] = 0"
| "scan_modules comparator ((ModuleName, ImageBase) # rest) =
     (if comparator ModuleName then ImageBase else scan_modules comparator rest)"

definition kernelmode_find_module_impl ::
  "kernel \<Rightarrow> answer list \<Rightarrow> (byte list \<Rightarrow> bool)
   \<Rightarrow> ((kernel_fault + ptr) \<times> kernel_call list) option" where
  "kernelmode_find_module_impl k answers comparator =
     (case query_loop answers 0 0 0 [] of
        None \<Rightarrow> None
      | Some (Status', Buffer, calls) \<Rightarrow>
          if Buffer = 0 then Some (Inl null_pointer_read, calls @ [read_modules Buffer])
          else
            (let Modules = (if Status' = STATUS_SUCCESS then system_modules k
                            else stale k Buffer);
                 Result = scan_modules comparator Modules
             in Some (Inr Result, calls @ [read_modules Buffer, ExFreePool_call Buffer])))"

definition kernelmode_find_module ::
  "kernel \<Rightarrow> answer list \<Rightarrow> byte list
   \<Rightarrow> ((kernel_fault + ptr) \<times> kernel_call list) option" where
  "kernelmode_find_module k answers nm =
     kernelmode_find_module_impl k answers (\<lambda>module_name. stricmp module_name nm = 0)"

subsection \<open>Buffers\<close>

text \<open>
  \<open>outstanding held calls\<close> runs through the calls and keeps the buffers allocated and not
  yet freed; it is \<open>None\<close> when a pointer is freed that is not held (a null pointer, a
  pointer never allocated, a second free). On every way out of the helper it is \<open>Some []\<close>:
  each allocated buffer has been freed exactly once.
\<close>

fun outstanding :: "ptr list \<Rightarrow> kernel_call list \<Rightarrow> ptr list option" where
  "outstanding held [] = Some held"
| "outstanding held (ExAllocatePool_call n p # calls) =
     outstanding (if p \<noteq> 0 then p # held else held) calls"
| "outstanding held (ExFreePool_call p # calls) =
     (if p \<in> set held then outstanding (remove1 p held) calls else None)"
| "outstanding held (ZwQuerySystemInformation_call b n s # calls) = outstanding held calls"
| "outstanding held (read_modules b # calls) = outstanding held calls"

definition held_buffer :: "ptr \<Rightarrow> ptr list" where
  "held_buffer Buffer = (if Buffer \<noteq> 0 then [Buffer] else [])"

text \<open>A kernel with two modules, and stale pool memory that happens to hold a module entry.\<close>

definition demo_kernel :: kernel where
  "demo_kernel =
     \<lparr> system_modules = [(lit ''ntoskrnl.exe'', 0x80000000), (lit ''ksecdd.sys'', 0x80400000)],
       stale = (\<lambda>p. [(lit ''ksecdd.sys'', 0x6666)]) \<rparr>"

lemma outstanding_append:
  "outstanding held (xs @ ys) =
     (case outstanding held xs of None \<Rightarrow> None | Some held' \<Rightarrow> outstanding held' ys)"
  by (induction held xs rule: outstanding.induct) simp_all

lemma query_loop_outstanding:
  "query_loop answers Buffer BufferLength RequiredLength calls = Some (Status', Buffer', calls')
   \<Longrightarrow> outstanding [] calls = Some (held_buffer Buffer)
   \<Longrightarrow> outstanding [] calls' = Some (held_buffer Buffer')"
proof (induction answers arbitrary: Buffer BufferLength RequiredLength calls)
  case Nil
  then show ?case by simp
next
  case (Cons a answers)
  have "\<exists>B L c3. outstanding [] c3 = Some (held_buffer B) \<and>
      query_loop (a # answers) Buffer BufferLength RequiredLength calls =
        (if Status a = STATUS_INFO_LENGTH_MISMATCH
         then query_loop answers B L (ReturnLength a) c3 else Some (Status a, B, c3))"
  proof (cases "RequiredLength = 0")
    case True
    have "outstanding []
        (calls @ [ZwQuerySystemInformation_call Buffer BufferLength (Status a)])
        = Some (held_buffer Buffer)"
      using Cons.prems(2) by (simp add: outstanding_append)
    then show ?thesis
      using True by (intro exI [of _ Buffer] exI [of _ BufferLength]
          exI [of _ "calls @ [ZwQuerySystemInformation_call Buffer BufferLength (Status a)]"])
        (simp add: Let_def)
  next
    case False
    show ?thesis
    proof (cases "Buffer = 0")
      case True
      have "outstanding []
          (calls @ [ExAllocatePool_call RequiredLength (allocated a),
                    ZwQuerySystemInformation_call (allocated a) RequiredLength (Status a)])
          = Some (held_buffer (allocated a))"
        using Cons.prems(2) True by (simp add: outstanding_append held_buffer_def)
      then show ?thesis
        using False True
        by (intro exI [of _ "allocated a"] exI [of _ RequiredLength]
            exI [of _ "calls @ [ExAllocatePool_call RequiredLength (allocated a),
                    ZwQuerySystemInformation_call (allocated a) RequiredLength (Status a)]"])
          (simp add: Let_def)
    next
      case nz: False
      have "outstanding []
          (calls @ [ExFreePool_call Buffer, ExAllocatePool_call RequiredLength (allocated a),
                    ZwQuerySystemInformation_call (allocated a) RequiredLength (Status a)])
          = Some (held_buffer (allocated a))"
        using Cons.prems(2) nz by (simp add: outstanding_append held_buffer_def)
      then show ?thesis
        using False nz
        by (intro exI [of _ "allocated a"] exI [of _ RequiredLength]
            exI [of _ "calls @ [ExFreePool_call Buffer,
                    ExAllocatePool_call RequiredLength (allocated a),
                    ZwQuerySystemInformation_call (allocated a) RequiredLength (Status a)]"])
          (simp add: Let_def)
    qed
  qed
  then obtain B L c3 where inv: "outstanding [] c3 = Some (held_buffer B)"
    and step: "query_loop (a # answers) Buffer BufferLength RequiredLength calls =
        (if Status a = STATUS_INFO_LENGTH_MISMATCH
         then query_loop answers B L (ReturnLength a) c3 else Some (Status a, B, c3))"
    by blast
  show ?case
  proof (cases "Status a = STATUS_INFO_LENGTH_MISMATCH")
    case True
    then have "query_loop answers B L (ReturnLength a) c3 = Some (Status', Buffer', calls')"
      using Cons.prems(1) step by simp
    from Cons.IH [OF this inv] show ?thesis .
  next
    case False
    then have "Buffer' = B" "calls' = c3"
      using Cons.prems(1) step by simp_all
    with inv show ?thesis by simp
  qed
qed

lemma kernelmode_find_module_impl_frees:
  assumes "kernelmode_find_module_impl k answers comparator = Some (r, calls)"
  shows "outstanding [] calls = Some []"
proof -
  obtain Status' Buffer calls0
    where q: "query_loop answers 0 0 0 [] = Some (Status', Buffer, calls0)"
    using assms by (auto simp: kernelmode_find_module_impl_def split: option.splits)
  have inv: "outstanding [] calls0 = Some (held_buffer Buffer)"
    using query_loop_outstanding [OF q] by (simp add: held_buffer_def)
  show ?thesis
  proof (cases "Buffer = 0")
    case True
    then have "calls = calls0 @ [read_modules Buffer]"
      using assms q by (simp add: kernelmode_find_module_impl_def)
    then show ?thesis
      using inv True by (simp add: outstanding_append held_buffer_def)
  next
    case False
    then have "calls = calls0 @ [read_modules Buffer, ExFreePool_call Buffer]"
      using assms q by (simp add: kernelmode_find_module_impl_def Let_def)
    then show ?thesis
      using inv False by (simp add: outstanding_append held_buffer_def)
  qed
qed

lemma kernelmode_find_module_impl_success:
  assumes "query_loop answers 0 0 0 [] = Some (STATUS_SUCCESS, Buffer, calls)"
    and "Buffer \<noteq> 0"
  shows "kernelmode_find_module_impl k answers comparator =
     Some (Inr (scan_modules comparator (system_modules k)),
           calls @ [read_modules Buffer, ExFreePool_call Buffer])"
  using assms by (simp add: kernelmode_find_module_impl_def)

lemma scan_modules_no_match:
  "\<forall>(nm, base) \<in> set ms. \<not> comparator nm \<Longrightarrow> scan_modules comparator ms = 0"
  by (induction ms) auto

subsection \<open>A query that fails\<close>

lemma demo_stricmp:
  "stricmp (lit ''ksecdd.sys'') (lit ''KSECDD.SYS'') = 0"
  "stricmp (lit ''ntoskrnl.exe'') (lit ''KSECDD.SYS'') \<noteq> 0"
  by (simp_all add: stricmp.simps lit_def peek_def cmp_fold_def)

text \<open>
  C6. The status of the query is compared with \<open>STATUS_INFO_LENGTH_MISMATCH\<close> only. When the
  first query fails with \<open>STATUS_ACCESS_DENIED\<close> no buffer was allocated, and the helper reads
  the module array through the null \<open>Buffer\<close>. When the query fails after a buffer was
  allocated, the helper scans the buffer the query did not fill, and returns what the stale
  memory holds (here a non-null pointer) instead of null. With a successful second query the
  same run returns the base of \<open>ksecdd.sys\<close>.
\<close>

theorem kernelmode_find_module_unchecked_status:
  "kernelmode_find_module demo_kernel
     [\<lparr> allocated = 0, Status = STATUS_ACCESS_DENIED, ReturnLength = 0 \<rparr>] (lit ''KSECDD.SYS'')
     = Some (Inl null_pointer_read,
         [ZwQuerySystemInformation_call 0 0 STATUS_ACCESS_DENIED, read_modules 0]) \<and>
   kernelmode_find_module demo_kernel
     [\<lparr> allocated = 0, Status = STATUS_INFO_LENGTH_MISMATCH, ReturnLength = 0x400 \<rparr>,
      \<lparr> allocated = 0x9000, Status = STATUS_ACCESS_DENIED, ReturnLength = 0 \<rparr>]
     (lit ''KSECDD.SYS'')
     = Some (Inr 0x6666,
         [ZwQuerySystemInformation_call 0 0 STATUS_INFO_LENGTH_MISMATCH,
          ExAllocatePool_call 0x400 0x9000,
          ZwQuerySystemInformation_call 0x9000 0x400 STATUS_ACCESS_DENIED,
          read_modules 0x9000, ExFreePool_call 0x9000]) \<and>
   kernelmode_find_module demo_kernel
     [\<lparr> allocated = 0, Status = STATUS_INFO_LENGTH_MISMATCH, ReturnLength = 0x400 \<rparr>,
      \<lparr> allocated = 0x9000, Status = STATUS_SUCCESS, ReturnLength = 0x400 \<rparr>]
     (lit ''KSECDD.SYS'')
     = Some (Inr 0x80400000,
         [ZwQuerySystemInformation_call 0 0 STATUS_INFO_LENGTH_MISMATCH,
          ExAllocatePool_call 0x400 0x9000,
          ZwQuerySystemInformation_call 0x9000 0x400 STATUS_SUCCESS,
          read_modules 0x9000, ExFreePool_call 0x9000])"
  by (simp add: kernelmode_find_module_def kernelmode_find_module_impl_def Let_def demo_kernel_def
      demo_stricmp STATUS_ACCESS_DENIED_def STATUS_INFO_LENGTH_MISMATCH_def STATUS_SUCCESS_def)

end
